theory Spec2Isabelle
  imports Complex_Main "HOL-Library.AList" "HOL-Library.Multiset"
begin

section \<open>Gene abundance of an MM12 community: the script mm12\_gene\_abundance.py\<close>

text \<open>
  The script reads a table of relative abundances (rows are strains, columns are samples)
  and one annotation file per strain, and gives every annotation identifier of a strain
  an equal share of the strain's abundance in every sample. The embedding below follows
  the script function by function. A Python dictionary is an association list in
  insertion order (\<open>AList.update\<close> overwrites a key in place and appends a new key at the
  end, as a Python \<open>dict\<close> does), an exception is the \<open>Inl\<close> branch of a sum, a text file
  is the string that Python's text layer delivers for it, and the list of paths that
  \<open>glob.glob\<close> returns is an input, paired with the text of each file.
\<close>

subsection \<open>Exceptions\<close>

datatype error = IndexError | KeyError | ValueError | AssertionError | ZeroDivisionError

subsection \<open>The string methods the script calls\<close>

text \<open>\<open>s.split(c)\<close> for a separator of one character: never an empty list.\<close>

fun split_on :: "char \<Rightarrow> string \<Rightarrow> string list" where
  "split_on c [] = [[]]"
| "split_on c (x # xs) =
     (if x = c then [] # split_on c xs
      else (case split_on c xs of
              [] \<Rightarrow> [[x]]
            | w # ws \<Rightarrow> (x # w) # ws))"

text \<open>\<open>s.strip("\n")\<close>: every newline at either end goes.\<close>

definition strip_nl :: "string \<Rightarrow> string" where
  "strip_nl s =
     rev (dropWhile (\<lambda>c. c = CHR 0x0A) (rev (dropWhile (\<lambda>c. c = CHR 0x0A) s)))"

text \<open>\<open>f.readlines()\<close>: the lines of a text, each with its newline; the last line may
  have none.\<close>

fun readlines :: "string \<Rightarrow> string list" where
  "readlines [] = []"
| "readlines (x # xs) =
     (if x = CHR 0x0A then [x] # readlines xs
      else (case readlines xs of
              [] \<Rightarrow> [[x]]
            | l # ls \<Rightarrow> (x # l) # ls))"

text \<open>\<open>s.replace(old, new)\<close> for a non-empty \<open>old\<close>: every occurrence, left to right,
  without overlap.\<close>

function py_replace :: "string \<Rightarrow> string \<Rightarrow> string \<Rightarrow> string" where
  "py_replace old new [] = []"
| "py_replace old new (x # xs) =
     (if old \<noteq> [] \<and> take (length old) (x # xs) = old
      then new @ py_replace old new (drop (length old) (x # xs))
      else x # py_replace old new xs)"
  by pat_completeness auto
termination
  by (relation "measure (\<lambda>(old, new, s). length s)") auto

text \<open>\<open>os.path.basename(p)\<close>: what follows the last slash.\<close>

definition basename :: "string \<Rightarrow> string" where
  "basename p = rev (takeWhile (\<lambda>c. c \<noteq> CHR ''/'') (rev p))"

definition tab :: char where
  "tab = CHR 0x09"

subsection \<open>Dictionaries of dictionaries\<close>

type_synonym ('k, 'v) dict = "('k \<times> 'v) list"

text \<open>\<open>d[k]\<close> of a \<open>defaultdict(dict)\<close> read as a value: the inner dictionary, empty
  when the key is new.\<close>

definition inner_of :: "('a, ('b, 'v) dict) dict \<Rightarrow> 'a \<Rightarrow> ('b, 'v) dict" where
  "inner_of d a = (case map_of d a of None \<Rightarrow> [] | Some m \<Rightarrow> m)"

text \<open>\<open>d[a][b] = v\<close> on a \<open>defaultdict(dict)\<close>.\<close>

definition dd_set :: "('a, ('b, 'v) dict) dict \<Rightarrow> 'a \<Rightarrow> 'b \<Rightarrow> 'v \<Rightarrow> ('a, ('b, 'v) dict) dict" where
  "dd_set d a b v = AList.update a (AList.update b v (inner_of d a)) d"

text \<open>The cell of a dictionary of dictionaries, \<open>None\<close> when either key is absent.\<close>

definition cell :: "('a, ('b, 'v) dict) dict \<Rightarrow> 'a \<Rightarrow> 'b \<Rightarrow> 'v option" where
  "cell d a b = (case map_of d a of None \<Rightarrow> None | Some m \<Rightarrow> map_of m b)"

subsection \<open>read\_relab\<close>

text \<open>
  The header's tokens are the sample names, the first token included; the loop over the
  columns starts at index 1. \<open>data[i]\<close> is evaluated before the store, and raises
  IndexError on a row shorter than the header.
\<close>

fun relab_cols ::
  "string list \<Rightarrow> string list \<Rightarrow> string \<Rightarrow> nat list \<Rightarrow>
   (string, (string, string) dict) dict \<Rightarrow> error + (string, (string, string) dict) dict" where
  "relab_cols samples data strain [] sample_dict = Inr sample_dict"
| "relab_cols samples data strain (i # is) sample_dict =
     (if i < length data
      then relab_cols samples data strain is (dd_set sample_dict (samples ! i) strain (data ! i))
      else Inl IndexError)"

fun relab_rows ::
  "string list \<Rightarrow> string list \<Rightarrow>
   (string, (string, string) dict) dict \<Rightarrow> error + (string, (string, string) dict) dict" where
  "relab_rows samples [] sample_dict = Inr sample_dict"
| "relab_rows samples (line # rest) sample_dict =
     (let data = split_on tab (strip_nl line);
          strain = hd data
      in case relab_cols samples data strain [1..<length samples] sample_dict of
           Inl e \<Rightarrow> Inl e
         | Inr d \<Rightarrow> relab_rows samples rest d)"

definition read_relab :: "string \<Rightarrow> error + (string, (string, string) dict) dict" where
  "read_relab relab_file =
     (let lines = readlines relab_file;
          samples = split_on tab (strip_nl (case lines of [] \<Rightarrow> [] | h # _ \<Rightarrow> h))
      in relab_rows samples (tl lines) [])"

subsection \<open>The class Annotation\<close>

record annotation =
  locus_tag :: string
  ftype :: string
  length_bp :: string
  gene :: string
  ec :: string
  cog :: string
  product_desc :: string

definition Annotation ::
  "string \<Rightarrow> string \<Rightarrow> string \<Rightarrow> string \<Rightarrow> string \<Rightarrow> string \<Rightarrow> string \<Rightarrow> annotation" where
  "Annotation locus_tag0 ftype0 length0 gene0 ec0 cog0 product0 =
     (let gene1 = (if gene0 = [] then ''unannotated_gene'' else gene0);
          gene2 = (if length (split_on CHR ''_'' gene1) = 2
                   then hd (split_on CHR ''_'' gene1) else gene1)
      in \<lparr> locus_tag = locus_tag0, ftype = ftype0, length_bp = length0,
           gene = gene2,
           ec = (if ec0 = [] then ''unannotated_ec'' else ec0),
           cog = (if cog0 = [] then ''unannotated_cog'' else cog0),
           product_desc = (if product0 = [] then ''unannotated_gene_product'' else product0) \<rparr>)"

text \<open>One line of an annotation file: \<open>data[0]\<close> to \<open>data[6]\<close> are read, so a line of
  fewer than seven fields raises IndexError.\<close>

definition annotation_of_fields :: "string list \<Rightarrow> error + annotation" where
  "annotation_of_fields data =
     (if length data < 7 then Inl IndexError
      else Inr (Annotation (data ! 0) (data ! 1) (data ! 2) (data ! 3)
                           (data ! 4) (data ! 5) (data ! 6)))"

definition annotation_of_line :: "string \<Rightarrow> error + annotation" where
  "annotation_of_line line = annotation_of_fields (split_on tab (strip_nl line))"

subsection \<open>build\_annotation and get\_number\_of\_genes\<close>

text \<open>\<open>annotations[strain].append(v)\<close> on a \<open>defaultdict(list)\<close>.\<close>

definition dl_append :: "('k, 'v list) dict \<Rightarrow> 'k \<Rightarrow> 'v \<Rightarrow> ('k, 'v list) dict" where
  "dl_append d k v =
     AList.update k ((case map_of d k of None \<Rightarrow> [] | Some vs \<Rightarrow> vs) @ [v]) d"

fun build_loop ::
  "string \<Rightarrow> string \<Rightarrow> string list \<Rightarrow> (string, string list) dict \<Rightarrow>
   error + (string, string list) dict" where
  "build_loop annotation_type strain [] annotations = Inr annotations"
| "build_loop annotation_type strain (line # rest) annotations =
     (case annotation_of_line line of
        Inl e \<Rightarrow> Inl e
      | Inr a \<Rightarrow>
          if annotation_type = ''gene''
          then build_loop annotation_type strain rest (dl_append annotations strain (gene a))
          else if annotation_type = ''ko''
          then build_loop annotation_type strain rest (dl_append annotations strain (ec a))
          else if annotation_type = ''cog''
          then build_loop annotation_type strain rest (dl_append annotations strain (cog a))
          else build_loop annotation_type strain rest annotations)"

text \<open>The argument is a path of the glob and the text of the file it names.\<close>

definition build_annotation ::
  "string \<times> string \<Rightarrow> string \<Rightarrow> error + (string, string list) dict" where
  "build_annotation infile annotation_type =
     (if annotation_type \<notin> set [''gene'', ''ko'', ''cog''] then Inl AssertionError
      else build_loop annotation_type (py_replace ''.tsv'' [] (basename (fst infile)))
             (readlines (snd infile)) [])"

text \<open>\<open>list(annotations.values())[0]\<close>: IndexError on an empty dictionary.\<close>

definition first_value :: "('k, 'v) dict \<Rightarrow> error + 'v" where
  "first_value d = (case d of [] \<Rightarrow> Inl IndexError | kv # _ \<Rightarrow> Inr (snd kv))"

definition get_number_of_genes :: "(string, string list) dict \<Rightarrow> error + nat" where
  "get_number_of_genes annotations =
     (case first_value annotations of Inl e \<Rightarrow> Inl e | Inr l \<Rightarrow> Inr (length l))"

subsection \<open>check\_files\<close>

text \<open>
  The loop over the strains leaves at the first strain that is not among the paths of the
  glob with every \<open>.tsv\<close> removed. The result is the list of warnings given; the function
  raises nothing.
\<close>

fun check_loop :: "string list \<Rightarrow> string list \<Rightarrow> string list" where
  "check_loop annotation_files [] = []"
| "check_loop annotation_files (line # rest) =
     (let strain = hd (split_on tab (strip_nl line))
      in if strain \<notin> set annotation_files
         then [''strain '' @ strain @ '' annotation file not found'']
         else check_loop annotation_files rest)"

definition check_files :: "string \<Rightarrow> string list \<Rightarrow> string list" where
  "check_files relab_file glob_paths =
     check_loop (map (py_replace ''.tsv'' []) glob_paths) (tl (readlines relab_file))"

subsection \<open>The arithmetic of the accumulation\<close>

text \<open>
  The script computes with Python floats: \<open>float(relab)\<close>, \<open>float(ngenes)\<close>, a division
  and an addition. These four operations are a parameter of the embedding.
\<close>

record 'f arith =
  float_of_str :: "string \<Rightarrow> 'f option"
  float_of_nat :: "nat \<Rightarrow> 'f"
  fdiv :: "'f \<Rightarrow> 'f \<Rightarrow> 'f"
  fadd :: "'f \<Rightarrow> 'f \<Rightarrow> 'f"

text \<open>\<open>float(relab)/float(ngenes)\<close>: ValueError when the text is no number,
  ZeroDivisionError when the divisor is zero.\<close>

definition share_of :: "'f arith \<Rightarrow> string \<Rightarrow> nat \<Rightarrow> error + 'f" where
  "share_of A relab ngenes =
     (case float_of_str A relab of
        None \<Rightarrow> Inl ValueError
      | Some r \<Rightarrow> if ngenes = 0 then Inl ZeroDivisionError
                  else Inr (fdiv A r (float_of_nat A ngenes)))"

subsection \<open>The accumulation of main\<close>

text \<open>The body of the loop over the identifiers of one strain.\<close>

definition add_gene ::
  "'f arith \<Rightarrow> string \<Rightarrow> string \<Rightarrow> nat \<Rightarrow> string \<Rightarrow>
   (string, (string, 'f) dict) dict \<Rightarrow> error + (string, (string, 'f) dict) dict" where
  "add_gene A sample relab ngenes g gene_relabs =
     (if g = ''gene'' then Inr gene_relabs
      else (case map_of (inner_of gene_relabs sample) g of
              Some v \<Rightarrow>
                (case share_of A relab ngenes of
                   Inl e \<Rightarrow> Inl e
                 | Inr s \<Rightarrow> Inr (dd_set gene_relabs sample g (fadd A v s)))
            | None \<Rightarrow>
                (case share_of A relab ngenes of
                   Inl e \<Rightarrow> Inl e
                 | Inr s \<Rightarrow> Inr (dd_set gene_relabs sample g s))))"

fun genes_loop ::
  "'f arith \<Rightarrow> string \<Rightarrow> string \<Rightarrow> nat \<Rightarrow> string list \<Rightarrow>
   (string, (string, 'f) dict) dict \<Rightarrow> error + (string, (string, 'f) dict) dict" where
  "genes_loop A sample relab ngenes [] gene_relabs = Inr gene_relabs"
| "genes_loop A sample relab ngenes (g # gs) gene_relabs =
     (case add_gene A sample relab ngenes g gene_relabs of
        Inl e \<Rightarrow> Inl e
      | Inr d \<Rightarrow> genes_loop A sample relab ngenes gs d)"

text \<open>The annotation list of a strain as main obtains it: the first path of the glob
  whose base name without \<open>.tsv\<close> is the strain, read by \<open>build_annotation\<close>, and the first
  value of the dictionary it returns.\<close>

definition strain_ids ::
  "string \<Rightarrow> (string \<times> string) list \<Rightarrow> string \<Rightarrow> error + string list" where
  "strain_ids annotation_type annotation_files strain =
     (case filter (\<lambda>x. py_replace ''.tsv'' [] (basename (fst x)) = strain) annotation_files of
        [] \<Rightarrow> Inl IndexError
      | infile # _ \<Rightarrow>
          (case build_annotation infile annotation_type of
             Inl e \<Rightarrow> Inl e
           | Inr annotations \<Rightarrow>
               (case get_number_of_genes annotations of
                  Inl e \<Rightarrow> Inl e
                | Inr ngenes \<Rightarrow> first_value annotations)))"

text \<open>The body of the loop over the strains of one sample.\<close>

definition strain_step ::
  "'f arith \<Rightarrow> string \<Rightarrow> (string \<times> string) list \<Rightarrow> string \<Rightarrow> string \<times> string \<Rightarrow>
   (string, (string, 'f) dict) dict \<Rightarrow> error + (string, (string, 'f) dict) dict" where
  "strain_step A annotation_type annotation_files sample sr gene_relabs =
     (case strain_ids annotation_type annotation_files (fst sr) of
        Inl e \<Rightarrow> Inl e
      | Inr ids \<Rightarrow> genes_loop A sample (snd sr) (length ids) ids gene_relabs)"

fun strains_loop ::
  "'f arith \<Rightarrow> string \<Rightarrow> (string \<times> string) list \<Rightarrow> string \<Rightarrow> (string, string) dict \<Rightarrow>
   (string, (string, 'f) dict) dict \<Rightarrow> error + (string, (string, 'f) dict) dict" where
  "strains_loop A annotation_type annotation_files sample [] gene_relabs = Inr gene_relabs"
| "strains_loop A annotation_type annotation_files sample (sr # rest) gene_relabs =
     (case strain_step A annotation_type annotation_files sample sr gene_relabs of
        Inl e \<Rightarrow> Inl e
      | Inr d \<Rightarrow> strains_loop A annotation_type annotation_files sample rest d)"

fun samples_loop ::
  "'f arith \<Rightarrow> string \<Rightarrow> (string \<times> string) list \<Rightarrow> (string, (string, string) dict) dict \<Rightarrow>
   (string, (string, 'f) dict) dict \<Rightarrow> error + (string, (string, 'f) dict) dict" where
  "samples_loop A annotation_type annotation_files [] gene_relabs = Inr gene_relabs"
| "samples_loop A annotation_type annotation_files (ss # rest) gene_relabs =
     (case strains_loop A annotation_type annotation_files (fst ss) (snd ss) gene_relabs of
        Inl e \<Rightarrow> Inl e
      | Inr d \<Rightarrow> samples_loop A annotation_type annotation_files rest d)"

text \<open>The dictionary \<open>gene_relabs\<close> that main hands to pandas, from the abundance
  dictionary.\<close>

definition aggregate ::
  "'f arith \<Rightarrow> string \<Rightarrow> (string \<times> string) list \<Rightarrow> (string, (string, string) dict) dict \<Rightarrow>
   error + (string, (string, 'f) dict) dict" where
  "aggregate A annotation_type annotation_files relab =
     samples_loop A annotation_type annotation_files relab []"

text \<open>main up to the data frame: the abundance file is read, then aggregated. The
  call of \<open>check_files\<close> before it only gives warnings and has no part in the result.\<close>

definition main ::
  "'f arith \<Rightarrow> string \<Rightarrow> (string \<times> string) list \<Rightarrow> string \<Rightarrow>
   error + (string, (string, 'f) dict) dict" where
  "main A annotation_type annotation_files relab_file =
     (case read_relab relab_file of
        Inl e \<Rightarrow> Inl e
      | Inr relab \<Rightarrow> aggregate A annotation_type annotation_files relab)"

subsection \<open>Two arithmetics\<close>

text \<open>
  An unsigned decimal literal, with or without a point, as a rational number. Python's
  \<open>float\<close> reads more spellings (a sign, an exponent, blanks around the number); the two
  arithmetics below read only these literals and take every other text for no number.
\<close>

definition digit_of :: "char \<Rightarrow> nat option" where
  "digit_of c = map_of (zip ''0123456789'' [0, 1, 2, 3, 4, 5, 6, 7, 8, 9]) c"

definition digits_val :: "string \<Rightarrow> nat option" where
  "digits_val s =
     foldl (\<lambda>acc c. case acc of None \<Rightarrow> None
                      | Some a \<Rightarrow> (case digit_of c of None \<Rightarrow> None
                                   | Some d \<Rightarrow> Some (10 * a + d)))
           (Some 0) s"

definition decimal_of_str :: "string \<Rightarrow> rat option" where
  "decimal_of_str s =
     (case split_on CHR ''.'' s of
        [i] \<Rightarrow> (if i = [] then None else map_option of_nat (digits_val i))
      | [i, f] \<Rightarrow>
          (if i = [] \<and> f = [] then None
           else (case digits_val i of None \<Rightarrow> None
                 | Some a \<Rightarrow> (case digits_val f of None \<Rightarrow> None
                              | Some b \<Rightarrow> Some (of_nat a + of_nat b / 10 ^ length f))))
      | _ \<Rightarrow> None)"

text \<open>Exact arithmetic on the rational numbers.\<close>

definition exact :: "rat arith" where
  "exact = \<lparr> float_of_str = decimal_of_str, float_of_nat = of_nat,
             fdiv = (\<lambda>x y. x / y), fadd = (\<lambda>x y. x + y) \<rparr>"

text \<open>
  The arithmetic of Python's floats on finite numbers: every result is rounded to the
  nearest number of 53 significant bits, a tie to the even one (IEEE 754 binary64,
  round to nearest even). A float is the rational number it stands for. The exponent is
  not bounded here, so the results are those of binary64 wherever binary64 neither
  overflows nor leaves the normal range.
\<close>

fun bitlen_nat :: "nat \<Rightarrow> nat" where
  "bitlen_nat n = (if n = 0 then 0 else Suc (bitlen_nat (n div 2)))"

declare bitlen_nat.simps [simp del]

definition round_half_even :: "rat \<Rightarrow> int" where
  "round_half_even y =
     (let f = \<lfloor>y\<rfloor>; d = y - of_int f
      in if d < 1 / 2 then f else if 1 / 2 < d then f + 1 else if even f then f else f + 1)"

text \<open>For \<open>0 < y\<close>: the \<open>e\<close> with \<open>2 ^ e \<le> y < 2 ^ (e + 1)\<close>.\<close>

definition exponent_of :: "rat \<Rightarrow> int" where
  "exponent_of y =
     (if 1 \<le> y then int (bitlen_nat (nat \<lfloor>y\<rfloor>)) - 1
      else (let l = int (bitlen_nat (nat \<lfloor>1 / y\<rfloor>))
            in if y < 2 powi (1 - l) then - l else 1 - l))"

definition binary64 :: "rat \<Rightarrow> rat" where
  "binary64 x =
     (if x = 0 then 0
      else (let e = exponent_of \<bar>x\<bar>
            in sgn x * of_int (round_half_even (\<bar>x\<bar> * 2 powi (52 - e))) * 2 powi (e - 52)))"

definition float64 :: "rat arith" where
  "float64 = \<lparr> float_of_str = (\<lambda>s. map_option binary64 (decimal_of_str s)),
               float_of_nat = (\<lambda>n. binary64 (of_nat n)),
               fdiv = (\<lambda>x y. binary64 (x / y)),
               fadd = (\<lambda>x y. binary64 (x + y)) \<rparr>"

text \<open>An arithmetic is exact when its operations are those of the field.\<close>

definition exact_arith :: "('f::field) arith \<Rightarrow> bool" where
  "exact_arith A \<longleftrightarrow>
     (\<forall>x y. fadd A x y = x + y) \<and> (\<forall>x y. fdiv A x y = x / y) \<and>
     (\<forall>n. float_of_nat A n = of_nat n)"

text \<open>Its addition is commutative and associative.\<close>

definition ac_add :: "'f arith \<Rightarrow> bool" where
  "ac_add A \<longleftrightarrow>
     (\<forall>x y. fadd A x y = fadd A y x) \<and>
     (\<forall>x y z. fadd A (fadd A x y) z = fadd A x (fadd A y z))"

subsection \<open>Notions the properties are stated with\<close>

text \<open>One more share added to a running total that may not exist yet.\<close>

definition accum :: "'f arith \<Rightarrow> 'f option \<Rightarrow> 'f \<Rightarrow> 'f option" where
  "accum A t s = Some (case t of None \<Rightarrow> s | Some v \<Rightarrow> fadd A v s)"

text \<open>The shares one (strain, abundance) entry adds to the identifier \<open>g\<close>, in the order
  of the additions: one per occurrence of \<open>g\<close> in the strain's annotation list.\<close>

definition shares_of ::
  "'f arith \<Rightarrow> string \<Rightarrow> (string \<times> string) list \<Rightarrow> string \<Rightarrow> string \<times> string \<Rightarrow> 'f list" where
  "shares_of A annotation_type annotation_files g sr =
     (case strain_ids annotation_type annotation_files (fst sr) of
        Inl e \<Rightarrow> []
      | Inr ids \<Rightarrow>
          (case share_of A (snd sr) (length ids) of
             Inl e \<Rightarrow> []
           | Inr s \<Rightarrow> replicate (count_list ids g) s))"

text \<open>The (strain, abundance) entries on which the body of the loop raises nothing.\<close>

definition step_ok ::
  "'f arith \<Rightarrow> string \<Rightarrow> (string \<times> string) list \<Rightarrow> string \<times> string \<Rightarrow> bool" where
  "step_ok A annotation_type annotation_files sr =
     (case strain_ids annotation_type annotation_files (fst sr) of
        Inl e \<Rightarrow> False
      | Inr ids \<Rightarrow>
          list_all (\<lambda>g. g = ''gene'') ids \<or>
          (case share_of A (snd sr) (length ids) of Inl e \<Rightarrow> False | Inr s \<Rightarrow> True))"

text \<open>The (sample, strain, abundance) triples of an abundance dictionary, in the order
  main visits them.\<close>

definition flatten :: "('a, ('b, 'c) dict) dict \<Rightarrow> ('a \<times> 'b \<times> 'c) list" where
  "flatten relab = concat (map (\<lambda>ss. map (Pair (fst ss)) (snd ss)) relab)"

text \<open>The annotation list of a strain that has one.\<close>

definition ids_of :: "string \<Rightarrow> (string \<times> string) list \<Rightarrow> string \<Rightarrow> string list" where
  "ids_of annotation_type annotation_files strain =
     (case strain_ids annotation_type annotation_files strain of Inl e \<Rightarrow> [] | Inr ids \<Rightarrow> ids)"

text \<open>
  The total the specification gives for an identifier \<open>g\<close> and the strains of a sample:
  over the strains whose annotation list contains \<open>g\<close>, the sum of the number of
  occurrences of \<open>g\<close> times the abundance, divided by the number of annotation rows.
\<close>

definition claimed_total ::
  "('f::field) arith \<Rightarrow> string \<Rightarrow> (string \<times> string) list \<Rightarrow> string \<Rightarrow> (string, string) dict \<Rightarrow> 'f" where
  "claimed_total A annotation_type annotation_files g strains =
     sum_list
       (map (\<lambda>sr. of_nat (count_list (ids_of annotation_type annotation_files (fst sr)) g)
                   * the (float_of_str A (snd sr))
                   / of_nat (length (ids_of annotation_type annotation_files (fst sr))))
            (filter (\<lambda>sr. g \<in> set (ids_of annotation_type annotation_files (fst sr))) strains))"

text \<open>The text of a tab-separated file from its rows of fields, every row ended by a
  newline.\<close>

fun join_tabs :: "string list \<Rightarrow> string" where
  "join_tabs [] = []"
| "join_tabs [x] = x"
| "join_tabs (x # y # zs) = x @ tab # join_tabs (y # zs)"

definition tsv_text :: "string list list \<Rightarrow> string" where
  "tsv_text rows = concat (map (\<lambda>row. join_tabs row @ [CHR 0x0A]) rows)"

subsection \<open>Notions for the order of the inputs\<close>

text \<open>The identifier that \<open>build_annotation\<close> appends for one line of an annotation
  file.\<close>

definition line_id :: "string \<Rightarrow> string \<Rightarrow> error + string" where
  "line_id annotation_type line =
     (case annotation_of_line line of
        Inl e \<Rightarrow> Inl e
      | Inr a \<Rightarrow> Inr (if annotation_type = ''gene'' then gene a
                      else if annotation_type = ''ko'' then ec a else cog a))"

text \<open>The annotation list that main obtains from the lines of the file it picked.\<close>

definition lines_ids :: "string \<Rightarrow> string list \<Rightarrow> error + string list" where
  "lines_ids ty lines =
     (if ty \<notin> set [''gene'', ''ko'', ''cog''] then Inl AssertionError
      else if (\<exists>l\<in>set lines. \<exists>e. line_id ty l = Inl e) \<or> lines = [] then Inl IndexError
      else Inr (map (\<lambda>l. projr (line_id ty l)) lines))"

text \<open>Two lists of annotation files with the same paths in the same order, each file
  with the same lines in any order.\<close>

definition same_rows :: "(string \<times> string) list \<Rightarrow> (string \<times> string) list \<Rightarrow> bool" where
  "same_rows files files' =
     list_all2 (\<lambda>x y. fst x = fst y \<and> mset (readlines (snd x)) = mset (readlines (snd y)))
       files files'"

text \<open>Two abundance dictionaries with the same samples in any order, each sample with
  the same (strain, abundance) entries in any order.\<close>

definition same_entries ::
  "(string, (string, string) dict) dict \<Rightarrow> (string, (string, string) dict) dict \<Rightarrow> bool" where
  "same_entries relab relab' \<longleftrightarrow>
     mset (map (\<lambda>ss. (fst ss, mset (snd ss))) relab) =
     mset (map (\<lambda>ss. (fst ss, mset (snd ss))) relab')"

subsection \<open>Notions for the abundance table\<close>

text \<open>The header tokens and the rows of fields of an abundance file, as \<open>read_relab\<close>
  splits them.\<close>

definition header_of :: "string \<Rightarrow> string list" where
  "header_of relab_file =
     split_on tab (strip_nl (case readlines relab_file of [] \<Rightarrow> [] | h # _ \<Rightarrow> h))"

definition rows_of :: "string \<Rightarrow> string list list" where
  "rows_of relab_file = map (\<lambda>line. split_on tab (strip_nl line)) (tl (readlines relab_file))"

text \<open>The last of the columns \<open>cols\<close> whose header is the sample \<open>a\<close>.\<close>

definition last_col :: "string list \<Rightarrow> nat list \<Rightarrow> string \<Rightarrow> nat" where
  "last_col samples cols a = last (filter (\<lambda>i. samples ! i = a) cols)"

subsection \<open>The output table\<close>

text \<open>
  Modelled from the spec: the data frame \<open>pd.DataFrame(gene_relabs)\<close> and its method
  \<open>to_csv\<close> are code of the pandas library, which is not in the repository. The
  specification describes the table written: a header row with the index label and then
  the samples, one row per identifier observed, each row the identifier and then one cell
  per sample, the cell blank where the identifier has no value for the sample. A table
  is the list of its rows, a row the list of its cells; \<open>repr\<close> writes a number.
\<close>

definition frame_index :: "('a, ('b, 'v) dict) dict \<Rightarrow> 'b list" where
  "frame_index df = remdups (concat (map (\<lambda>col. map fst (snd col)) df))"

definition to_csv ::
  "('v \<Rightarrow> string) \<Rightarrow> string \<Rightarrow> (string, (string, 'v) dict) dict \<Rightarrow> string list list" where
  "to_csv repr index_label df =
     (index_label # map fst df) #
     map (\<lambda>g. g # map (\<lambda>col. case map_of (snd col) g of None \<Rightarrow> [] | Some v \<Rightarrow> repr v) df)
         (frame_index df)"

text \<open>The end of main: the table is written with the index label \<open>gene\<close>, whatever
  the annotation type.\<close>

definition write_table ::
  "('v \<Rightarrow> string) \<Rightarrow> string \<Rightarrow> (string, (string, 'v) dict) dict \<Rightarrow> string list list" where
  "write_table repr annotation_type gene_relabs = to_csv repr ''gene'' gene_relabs"

subsection \<open>Example inputs\<close>

text \<open>An annotation row with the gene symbol \<open>g\<close>.\<close>

definition ann_row :: "string \<Rightarrow> string list" where
  "ann_row g = [''L_1'', ''CDS'', ''525'', g, ''1.1.1.1'', ''COG0787'', ''p'']"

text \<open>The scenario of the specification: KB1 with the genes alr, alr, luxS and the
  abundance 0.6, YL32 with the gene luxS and the abundance 0.4, in one sample.\<close>

definition scenario_files :: "(string \<times> string) list" where
  "scenario_files =
     [(''annotations/KB1.tsv'', tsv_text [ann_row ''alr'', ann_row ''alr'', ann_row ''luxS'']),
      (''annotations/YL32.tsv'', tsv_text [ann_row ''luxS''])]"

definition scenario_relab :: string where
  "scenario_relab = tsv_text [[''strain'', ''sample1''], [''KB1'', ''0.6''], [''YL32'', ''0.4'']]"

text \<open>One strain of abundance 1 whose six annotation rows all name the gene alr.\<close>

definition six_files :: "(string \<times> string) list" where
  "six_files = [(''annotations/KB1.tsv'', tsv_text (replicate 6 (ann_row ''alr'')))]"

definition six_relab :: string where
  "six_relab = tsv_text [[''strain'', ''sample1''], [''KB1'', ''1'']]"

text \<open>An annotation file as prokka writes it, with its header row, and an empty one.\<close>

definition header_files :: "(string \<times> string) list" where
  "header_files =
     [(''annotations/KB1.tsv'',
       tsv_text [[''locus_tag'', ''ftype'', ''length_bp'', ''gene'', ''EC_number'', ''COG'', ''product''],
                 ann_row ''alr''])]"

definition empty_files :: "(string \<times> string) list" where
  "empty_files = [(''annotations/KB1.tsv'', [])]"

text \<open>An abundance table with two rows for the strain KB1.\<close>

definition dup_relab :: string where
  "dup_relab = tsv_text [[''strain'', ''s1'', ''s2''], [''KB1'', ''0.1'', ''0.2''],
                         [''YL32'', ''0.5'', ''0.6''], [''KB1'', ''0.3'', ''0.4'']]"

text \<open>The scenario with the rows of KB1 in another order.\<close>

definition scenario_files_permuted :: "(string \<times> string) list" where
  "scenario_files_permuted =
     [(''annotations/KB1.tsv'', tsv_text [ann_row ''luxS'', ann_row ''alr'', ann_row ''alr'']),
      (''annotations/YL32.tsv'', tsv_text [ann_row ''luxS''])]"

text \<open>Three strains with one annotation row each, all of the gene x, and their
  abundances in two orders of the rows.\<close>

definition abc_files :: "(string \<times> string) list" where
  "abc_files =
     [(''annotations/A.tsv'', tsv_text [ann_row ''x'']),
      (''annotations/B.tsv'', tsv_text [ann_row ''x'']),
      (''annotations/C.tsv'', tsv_text [ann_row ''x''])]"

definition abc_relab :: string where
  "abc_relab = tsv_text [[''strain'', ''s1''], [''A'', ''0.1''], [''B'', ''0.2''], [''C'', ''0.3'']]"

definition cba_relab :: string where
  "cba_relab = tsv_text [[''strain'', ''s1''], [''C'', ''0.3''], [''B'', ''0.2''], [''A'', ''0.1'']]"

text \<open>An abundance table with two rows for KB1, the second without a field for the
  last sample.\<close>

definition short_relab :: string where
  "short_relab = tsv_text [[''strain'', ''s1'', ''s2''], [''KB1'', ''0.1'', ''0.2''],
                           [''KB1'', ''0.3'']]"

section \<open>Properties\<close>

subsection \<open>Splitting a string\<close>

lemma split_on_nonempty: "split_on c s \<noteq> []"
  by (induction s) (auto split: list.splits)

lemma length_split_on: "length (split_on c s) = Suc (count_list s c)"
  by (induction s) (auto split: list.splits)

lemma hd_split_on: "hd (split_on c s) = takeWhile (\<lambda>x. x \<noteq> c) s"
  using split_on_nonempty [of c]
  by (induction s) (auto split: list.splits)

subsection \<open>The gene field of an annotation\<close>

text \<open>
  C2. A row whose gene symbol is empty: the placeholder \<open>unannotated_gene\<close> is stored
  first, and the step that follows splits it at its one underscore and keeps the first
  part. The gene field of the record is \<open>unannotated\<close>, not the placeholder.
\<close>

theorem empty_gene_is_unannotated:
  "gene (Annotation locus_tag0 ftype0 length0 [] ec0 cog0 product0) = ''unannotated''
   \<and> gene (Annotation locus_tag0 ftype0 length0 [] ec0 cog0 product0) \<noteq> ''unannotated_gene''"
  by (simp add: Annotation_def)

text \<open>
  C3, as the code has it. A non-empty gene symbol is cut down to the text before its
  underscore exactly when it holds one underscore, that is, when it splits into two
  parts; what the second part is plays no role. Every other non-empty symbol is kept.
\<close>

theorem gene_truncated_iff_one_underscore:
  "g \<noteq> [] \<Longrightarrow>
   gene (Annotation locus_tag0 ftype0 length0 g ec0 cog0 product0) =
     (if count_list g CHR ''_'' = 1 then takeWhile (\<lambda>x. x \<noteq> CHR ''_'') g else g)"
  by (simp add: Annotation_def length_split_on hd_split_on)

theorem gene_truncated_iff_one_underscore_witness:
  "''ssuE_2'' \<noteq> [] \<and>
   gene (Annotation ''L_1'' ''CDS'' ''525'' ''ssuE_2'' [] [] []) = ''ssuE'' \<and>
   gene (Annotation ''L_1'' ''CDS'' ''525'' ''ssuE'' [] [] []) = ''ssuE'' \<and>
   gene (Annotation ''L_1'' ''CDS'' ''525'' ''a_b_1'' [] [] []) = ''a_b_1''"
  using gene_truncated_iff_one_underscore [of "''ssuE_2''" "''L_1''" "''CDS''" "''525''" "[]" "[]" "[]"]
        gene_truncated_iff_one_underscore [of "''ssuE''" "''L_1''" "''CDS''" "''525''" "[]" "[]" "[]"]
        gene_truncated_iff_one_underscore [of "''a_b_1''" "''L_1''" "''CDS''" "''525''" "[]" "[]" "[]"]
  by simp

text \<open>
  C3, as the specification has it, fails: the symbol \<open>yaaA_B\<close> has two parts and its
  second part is no number, yet the record holds \<open>yaaA\<close>.
\<close>

theorem gene_truncated_nonnumeric_counterexample:
  "digits_val ''B'' = None \<and>
   gene (Annotation ''L_1'' ''CDS'' ''525'' ''yaaA_B'' [] [] []) = ''yaaA'' \<and>
   gene (Annotation ''L_1'' ''CDS'' ''525'' ''yaaA_B'' [] [] []) \<noteq> ''yaaA_B''"
  by (simp add: Annotation_def digits_val_def digit_of_def)

subsection \<open>Rows of more than seven fields\<close>

text \<open>
  C9. A line that splits into more than seven fields is parsed without an error, and
  the record is the one built from its first seven fields: the fields after the seventh
  are never read.
\<close>

theorem extra_fields_ignored:
  "7 < length (split_on tab (strip_nl line)) \<Longrightarrow>
   annotation_of_line line = annotation_of_fields (take 7 (split_on tab (strip_nl line))) \<and>
   (\<exists>a. annotation_of_line line = Inr a)"
  by (simp add: annotation_of_line_def annotation_of_fields_def)

theorem extra_fields_ignored_witness:
  "7 < length (split_on tab (strip_nl (tsv_text [[''L_1'', ''CDS'', ''525'', ''alr'', ''5.1.1.1'', ''COG0787'', ''racemase'', ''x'', ''y'']]))) \<and>
   annotation_of_line (tsv_text [[''L_1'', ''CDS'', ''525'', ''alr'', ''5.1.1.1'', ''COG0787'', ''racemase'', ''x'', ''y'']])
     = Inr (Annotation ''L_1'' ''CDS'' ''525'' ''alr'' ''5.1.1.1'' ''COG0787'' ''racemase'')"
  using extra_fields_ignored [of "tsv_text [[''L_1'', ''CDS'', ''525'', ''alr'', ''5.1.1.1'', ''COG0787'', ''racemase'', ''x'', ''y'']]"]
  by (simp add: tsv_text_def tab_def strip_nl_def annotation_of_fields_def)

subsection \<open>What the accumulation leaves in a cell\<close>

lemma cell_dd_set:
  "cell (dd_set d a b v) a' b' = (if a' = a \<and> b' = b then Some v else cell d a' b')"
  by (auto simp: cell_def dd_set_def inner_of_def update_conv' split: option.splits)

lemma map_of_inner_of: "map_of (inner_of d a) b = cell d a b"
  by (simp add: cell_def inner_of_def split: option.splits)

lemma add_gene_skip: "add_gene A sample relab n ''gene'' d = Inr d"
  by (simp add: add_gene_def)

lemma add_gene_Inr:
  assumes "add_gene A sample relab n g d = Inr d'" and "g \<noteq> ''gene''"
  shows "\<exists>s. share_of A relab n = Inr s \<and>
             (\<forall>a b. cell d' a b = (if a = sample \<and> b = g then accum A (cell d sample g) s
                                   else cell d a b))"
  using assms
  by (auto simp: add_gene_def map_of_inner_of accum_def cell_dd_set
           split: option.splits sum.splits)

lemma add_gene_fail:
  "g \<noteq> ''gene'' \<Longrightarrow> share_of A relab n = Inl e \<Longrightarrow> add_gene A sample relab n g d = Inl e"
  by (simp add: add_gene_def split: option.splits)

lemma add_gene_ok:
  "share_of A relab n = Inr s \<Longrightarrow> \<exists>d'. add_gene A sample relab n g d = Inr d'"
  by (simp add: add_gene_def split: option.splits)

lemma foldl_accum_replicate_Suc:
  "foldl (accum A) (accum A t s) (replicate k s) = foldl (accum A) t (replicate (Suc k) s)"
  by simp

lemma genes_loop_cell:
  "genes_loop A sample relab n ids d = Inr d' \<Longrightarrow>
   cell d' a b =
     (if a = sample \<and> b \<noteq> ''gene''
      then foldl (accum A) (cell d a b)
             (case share_of A relab n of Inl e \<Rightarrow> [] | Inr s \<Rightarrow> replicate (count_list ids b) s)
      else cell d a b)"
proof (induction ids arbitrary: d)
  case Nil
  then show ?case by (simp split: sum.splits)
next
  case (Cons g gs)
  from Cons.prems obtain d1 where
    step: "add_gene A sample relab n g d = Inr d1" and
    rest: "genes_loop A sample relab n gs d1 = Inr d'"
    by (auto split: sum.splits)
  note IH = Cons.IH [OF rest]
  show ?case
  proof (cases "g = ''gene''")
    case True
    with step have "d1 = d" by (simp add: add_gene_skip)
    with IH True show ?thesis by (auto split: sum.splits)
  next
    case False
    from add_gene_Inr [OF step False] obtain s where
      s: "share_of A relab n = Inr s" and
      c: "\<And>a b. cell d1 a b = (if a = sample \<and> b = g then accum A (cell d sample g) s else cell d a b)"
      by blast
    show ?thesis
      using IH False by (auto simp: s c)
  qed
qed

lemma genes_loop_ok:
  "(\<exists>d'. genes_loop A sample relab n ids d = Inr d') \<longleftrightarrow>
   ((\<forall>g\<in>set ids. g = ''gene'') \<or> (\<exists>s. share_of A relab n = Inr s))"
proof (induction ids arbitrary: d)
  case Nil
  then show ?case by simp
next
  case (Cons g gs)
  show ?case
  proof (cases "g = ''gene''")
    case True
    then show ?thesis using Cons.IH [of d] by (simp add: add_gene_skip)
  next
    case False
    show ?thesis
    proof (cases "share_of A relab n")
      case (Inl e)
      with False show ?thesis by (simp add: add_gene_fail)
    next
      case (Inr s)
      from add_gene_ok [OF Inr] obtain d1 where "add_gene A sample relab n g d = Inr d1" by blast
      then show ?thesis using Cons.IH [of d1] Inr by simp
    qed
  qed
qed

lemma strain_step_cell:
  "strain_step A ty files sample sr d = Inr d' \<Longrightarrow>
   cell d' a b =
     (if a = sample \<and> b \<noteq> ''gene''
      then foldl (accum A) (cell d a b) (shares_of A ty files b sr)
      else cell d a b)"
  by (auto simp: strain_step_def shares_of_def genes_loop_cell split: sum.splits)

lemma strain_step_ok:
  "(\<exists>d'. strain_step A ty files sample sr d = Inr d') \<longleftrightarrow> step_ok A ty files sr"
proof (cases "strain_ids ty files (fst sr)")
  case (Inl e)
  then show ?thesis by (simp add: strain_step_def step_ok_def)
next
  case (Inr ids)
  then show ?thesis
    using genes_loop_ok [of A sample "snd sr" "length ids" ids d]
    by (auto simp: strain_step_def step_ok_def list_all_iff split: sum.splits)
qed

lemma strains_loop_cell:
  "strains_loop A ty files sample strains d = Inr d' \<Longrightarrow>
   cell d' a b =
     (if a = sample \<and> b \<noteq> ''gene''
      then foldl (accum A) (cell d a b) (concat (map (shares_of A ty files b) strains))
      else cell d a b)"
proof (induction strains arbitrary: d)
  case Nil
  then show ?case by simp
next
  case (Cons sr rest)
  from Cons.prems obtain d1 where
    step: "strain_step A ty files sample sr d = Inr d1" and
    more: "strains_loop A ty files sample rest d1 = Inr d'"
    by (auto split: sum.splits)
  show ?case
    by (auto simp: Cons.IH [OF more] strain_step_cell [OF step])
qed

lemma strains_loop_ok:
  "(\<exists>d'. strains_loop A ty files sample strains d = Inr d') \<longleftrightarrow>
   list_all (step_ok A ty files) strains"
proof (induction strains arbitrary: d)
  case Nil
  then show ?case by simp
next
  case (Cons sr rest)
  show ?case
  proof (cases "strain_step A ty files sample sr d")
    case (Inl e)
    then show ?thesis using strain_step_ok [of A ty files sample sr d] by simp
  next
    case (Inr d1)
    then show ?thesis
      using strain_step_ok [of A ty files sample sr d] Cons.IH [of d1] by simp
  qed
qed

lemma samples_loop_cell:
  "samples_loop A ty files relab d = Inr d' \<Longrightarrow>
   cell d' a b =
     (if b \<noteq> ''gene''
      then foldl (accum A) (cell d a b)
             (concat (map (\<lambda>x. shares_of A ty files b (snd x))
                          (filter (\<lambda>x. fst x = a) (flatten relab))))
      else cell d a b)"
proof (induction relab arbitrary: d)
  case Nil
  then show ?case by (simp add: flatten_def)
next
  case (Cons ss rest)
  from Cons.prems obtain d1 where
    step: "strains_loop A ty files (fst ss) (snd ss) d = Inr d1" and
    more: "samples_loop A ty files rest d1 = Inr d'"
    by (auto split: sum.splits)
  have fl: "flatten (ss # rest) = map (Pair (fst ss)) (snd ss) @ flatten rest"
    by (simp add: flatten_def)
  have same: "filter (\<lambda>x. fst x = a) (map (Pair (fst ss)) (snd ss)) =
                (if fst ss = a then map (Pair (fst ss)) (snd ss) else [])"
    by (induction "snd ss") (auto simp: filter_map comp_def)
  show ?case
    by (auto simp: Cons.IH [OF more] strains_loop_cell [OF step] fl same comp_def)
qed

lemma samples_loop_ok:
  "(\<exists>d'. samples_loop A ty files relab d = Inr d') \<longleftrightarrow>
   list_all (\<lambda>x. step_ok A ty files (snd x)) (flatten relab)"
proof (induction relab arbitrary: d)
  case Nil
  then show ?case by (simp add: flatten_def)
next
  case (Cons ss rest)
  have fl: "flatten (ss # rest) = map (Pair (fst ss)) (snd ss) @ flatten rest"
    by (simp add: flatten_def)
  show ?case
  proof (cases "strains_loop A ty files (fst ss) (snd ss) d")
    case (Inl e)
    then show ?thesis
      using strains_loop_ok [of A ty files "fst ss" "snd ss" d]
      by (simp add: fl list.pred_map comp_def)
  next
    case (Inr d1)
    then show ?thesis
      using strains_loop_ok [of A ty files "fst ss" "snd ss" d] Cons.IH [of d1]
      by (simp add: fl list.pred_map comp_def)
  qed
qed

lemma cell_empty: "cell [] a b = None"
  by (simp add: cell_def)

lemma aggregate_cell:
  "aggregate A ty files relab = Inr out \<Longrightarrow>
   cell out a b =
     (if b \<noteq> ''gene''
      then foldl (accum A) None
             (concat (map (\<lambda>x. shares_of A ty files b (snd x))
                          (filter (\<lambda>x. fst x = a) (flatten relab))))
      else None)"
proof -
  assume "aggregate A ty files relab = Inr out"
  then have "samples_loop A ty files relab [] = Inr out"
    by (simp add: aggregate_def)
  from samples_loop_cell [OF this] show ?thesis
    by (simp add: cell_empty)
qed

lemma aggregate_ok:
  "(\<exists>out. aggregate A ty files relab = Inr out) \<longleftrightarrow>
   list_all (\<lambda>x. step_ok A ty files (snd x)) (flatten relab)"
  unfolding aggregate_def by (rule samples_loop_ok)

lemma flatten_filter_distinct:
  "distinct (map fst relab) \<Longrightarrow> map_of relab a = Some strains \<Longrightarrow>
   filter (\<lambda>x. fst x = a) (flatten relab) = map (Pair a) strains"
proof (induction relab)
  case Nil
  then show ?case by simp
next
  case (Cons ss rest)
  have fl: "flatten (ss # rest) = map (Pair (fst ss)) (snd ss) @ flatten rest"
    by (simp add: flatten_def)
  have same: "\<And>l. filter (\<lambda>x. fst x = a) (map (Pair (fst ss)) l) =
                (if fst ss = a then map (Pair (fst ss)) l else [])"
    by (auto simp: filter_map comp_def)
  show ?case
  proof (cases "fst ss = a")
    case True
    with Cons.prems have s: "snd ss = strains" by (cases ss) simp
    from True Cons.prems have "a \<notin> fst ` set rest" by simp
    then have "filter (\<lambda>x. fst x = a) (flatten rest) = []"
      by (auto simp: flatten_def filter_empty_conv)
    with True s show ?thesis by (simp add: fl same)
  next
    case False
    with Cons.prems have "map_of rest a = Some strains" by (cases ss) (simp split: if_splits)
    with Cons False show ?thesis by (simp add: fl same)
  qed
qed

lemma dd_set_distinct: "distinct (map fst d) \<Longrightarrow> distinct (map fst (dd_set d a b v))"
  by (simp add: dd_set_def distinct_update)

lemma relab_cols_distinct:
  "relab_cols samples data strain is d = Inr d' \<Longrightarrow> distinct (map fst d) \<Longrightarrow> distinct (map fst d')"
  by (induction "is" arbitrary: d) (auto simp: dd_set_distinct split: if_splits)

lemma relab_rows_distinct:
  "relab_rows samples lines d = Inr d' \<Longrightarrow> distinct (map fst d) \<Longrightarrow> distinct (map fst d')"
  by (induction lines arbitrary: d) (auto simp: Let_def relab_cols_distinct split: sum.splits)

lemma read_relab_distinct: "read_relab relab_file = Inr relab \<Longrightarrow> distinct (map fst relab)"
  by (auto simp: read_relab_def Let_def dest: relab_rows_distinct)

lemma foldl_accum_Some: "xs \<noteq> [] \<Longrightarrow> \<exists>v. foldl (accum A) t xs = Some v"
  by (induction xs arbitrary: t rule: rev_induct) (auto simp: accum_def)

lemma foldl_accum_exact:
  "exact_arith A \<Longrightarrow>
   foldl (accum A) t xs = (if xs = [] then t else Some ((case t of None \<Rightarrow> 0 | Some v \<Rightarrow> v) + sum_list xs))"
  by (induction xs arbitrary: t) (auto simp: accum_def exact_arith_def add.assoc split: option.splits)

lemma main_cell:
  assumes "main A ty files relab_file = Inr out"
    and "read_relab relab_file = Inr relab"
    and "map_of relab sample = Some strains"
  shows "cell out sample g =
     (if g \<noteq> ''gene''
      then foldl (accum A) None (concat (map (shares_of A ty files g) strains))
      else None)"
proof -
  from assms have agg: "aggregate A ty files relab = Inr out"
    by (simp add: main_def)
  have "filter (\<lambda>x. fst x = sample) (flatten relab) = map (Pair sample) strains"
    using read_relab_distinct [OF assms(2)] assms(3) by (rule flatten_filter_distinct)
  then show ?thesis
    by (simp add: aggregate_cell [OF agg] comp_def)
qed

lemma main_step_ok:
  assumes "main A ty files relab_file = Inr out"
    and "read_relab relab_file = Inr relab"
    and "map_of relab sample = Some strains"
    and "sr \<in> set strains"
  shows "step_ok A ty files sr"
proof -
  from assms have "\<exists>out. aggregate A ty files relab = Inr out"
    by (simp add: main_def)
  then have all: "list_all (\<lambda>x. step_ok A ty files (snd x)) (flatten relab)"
    by (simp add: aggregate_ok)
  from assms(3) have "(sample, strains) \<in> set relab" by (rule map_of_SomeD)
  with assms(4) have "(sample, sr) \<in> set (flatten relab)"
    by (force simp: flatten_def)
  with all show ?thesis by (auto simp: list_all_iff)
qed

lemma shares_of_empty_iff:
  assumes "step_ok A ty files sr" and "g \<noteq> ''gene''"
  shows "shares_of A ty files g sr = [] \<longleftrightarrow> g \<notin> set (ids_of ty files (fst sr))"
  using assms
  by (auto simp: shares_of_def step_ok_def ids_of_def list_all_iff count_list_0_iff
           split: sum.splits)

lemma sum_list_replicate_field: "sum_list (replicate k (s::'f::field)) = of_nat k * s"
  by (induction k) (simp_all add: algebra_simps)

lemma share_of_exact:
  "exact_arith A \<Longrightarrow> share_of A relab n = Inr s \<Longrightarrow>
   s = the (float_of_str A relab) / of_nat n"
  by (auto simp: share_of_def exact_arith_def split: option.splits if_splits)

lemma sum_shares_of_exact:
  assumes "exact_arith A" and "step_ok A ty files sr" and "g \<noteq> ''gene''"
  shows "sum_list (shares_of A ty files g sr) =
     (if g \<in> set (ids_of ty files (fst sr))
      then of_nat (count_list (ids_of ty files (fst sr)) g) * the (float_of_str A (snd sr))
           / of_nat (length (ids_of ty files (fst sr)))
      else 0)"
proof (cases "strain_ids ty files (fst sr)")
  case (Inl e)
  with assms(2) show ?thesis by (simp add: step_ok_def)
next
  case (Inr ids)
  show ?thesis
  proof (cases "g \<in> set ids")
    case False
    then show ?thesis using Inr
      by (simp add: shares_of_def ids_of_def count_list_0_iff split: sum.splits)
  next
    case True
    with assms(2,3) Inr obtain s where s: "share_of A (snd sr) (length ids) = Inr s"
      by (auto simp: step_ok_def list_all_iff split: sum.splits)
    from share_of_exact [OF assms(1) s] True Inr s show ?thesis
      by (simp add: shares_of_def ids_of_def sum_list_replicate_field)
  qed
qed

lemma sum_list_concat_map: "sum_list (concat (map f xs)) = sum_list (map (\<lambda>x. sum_list (f x)) xs)"
  by (induction xs) simp_all

subsection \<open>The value of a cell\<close>

text \<open>
  C1, as the code has it. After main has run without an error, for a sample of the
  abundance table and the strains listed under it: the identifier \<open>gene\<close> has no entry;
  the entry of any other identifier \<open>g\<close> is the total of the shares
  \<open>float(r)/float(n)\<close>, one per occurrence of \<open>g\<close> in the annotation list of each strain,
  added in the order of the strains by the machine's addition (no entry when there is
  no such share); and when the arithmetic is exact, that total is the sum over the
  strains whose list contains \<open>g\<close> of occurrences times abundance divided by the number of
  rows.
\<close>

theorem cell_is_sum_of_shares:
  assumes "main A ty files relab_file = Inr out"
    and "read_relab relab_file = Inr relab"
    and "map_of relab sample = Some strains"
  shows "cell out sample ''gene'' = None \<and>
     (g \<noteq> ''gene'' \<longrightarrow>
        cell out sample g =
          foldl (accum A) None (concat (map (shares_of A ty files g) strains))) \<and>
     (g \<noteq> ''gene'' \<and> exact_arith A \<longrightarrow>
        cell out sample g =
          (if \<exists>sr\<in>set strains. g \<in> set (ids_of ty files (fst sr))
           then Some (claimed_total A ty files g strains) else None))"
proof (intro conjI impI)
  show "cell out sample ''gene'' = None"
    by (simp add: main_cell [OF assms])
next
  assume "g \<noteq> ''gene''"
  then show "cell out sample g =
      foldl (accum A) None (concat (map (shares_of A ty files g) strains))"
    by (simp add: main_cell [OF assms])
next
  assume h: "g \<noteq> ''gene'' \<and> exact_arith A"
  then have g: "g \<noteq> ''gene''" and ex: "exact_arith A" by simp_all
  have ok: "\<And>sr. sr \<in> set strains \<Longrightarrow> step_ok A ty files sr"
    by (rule main_step_ok [OF assms])
  let ?xs = "concat (map (shares_of A ty files g) strains)"
  have empty: "?xs = [] \<longleftrightarrow> \<not> (\<exists>sr\<in>set strains. g \<in> set (ids_of ty files (fst sr)))"
    using ok g by (auto simp: shares_of_empty_iff)
  have "sum_list ?xs = sum_list (map (\<lambda>sr. sum_list (shares_of A ty files g sr)) strains)"
    by (rule sum_list_concat_map)
  also have "\<dots> = sum_list (map (\<lambda>sr. if g \<in> set (ids_of ty files (fst sr))
      then of_nat (count_list (ids_of ty files (fst sr)) g) * the (float_of_str A (snd sr))
           / of_nat (length (ids_of ty files (fst sr)))
      else 0) strains)"
    using ok ex g by (intro arg_cong [where f = sum_list] map_cong refl sum_shares_of_exact)
  also have "\<dots> = claimed_total A ty files g strains"
    by (simp add: claimed_total_def sum_list_map_filter')
  finally have total: "sum_list ?xs = claimed_total A ty files g strains" .
  show "cell out sample g =
      (if \<exists>sr\<in>set strains. g \<in> set (ids_of ty files (fst sr))
       then Some (claimed_total A ty files g strains) else None)"
    using g empty total by (simp add: main_cell [OF assms] foldl_accum_exact [OF ex])
qed

theorem cell_is_sum_of_shares_witness:
  "main exact ''gene'' scenario_files scenario_relab
     = Inr [(''sample1'', [(''alr'', 2 / 5), (''luxS'', 3 / 5)])] \<and>
   read_relab scenario_relab = Inr [(''sample1'', [(''KB1'', ''0.6''), (''YL32'', ''0.4'')])] \<and>
   exact_arith exact \<and>
   cell [(''sample1'', [(''alr'', 2 / 5), (''luxS'', 3 / 5 :: rat)])] ''sample1'' ''luxS''
     = Some (claimed_total exact ''gene'' scenario_files ''luxS''
               [(''KB1'', ''0.6''), (''YL32'', ''0.4'')]) \<and>
   claimed_total exact ''gene'' scenario_files ''luxS'' [(''KB1'', ''0.6''), (''YL32'', ''0.4'')]
     = 3 / 5"
proof -
  have m: "main exact ''gene'' scenario_files scenario_relab
      = Inr [(''sample1'', [(''alr'', 2 / 5), (''luxS'', 3 / 5)])]"
    by code_simp
  have r: "read_relab scenario_relab
      = Inr [(''sample1'', [(''KB1'', ''0.6''), (''YL32'', ''0.4'')])]"
    by code_simp
  have s: "map_of [(''sample1'', [(''KB1'', ''0.6''), (''YL32'', ''0.4'')])] ''sample1''
      = Some [(''KB1'', ''0.6''), (''YL32'', ''0.4'')]"
    by simp
  have e: "exact_arith exact"
    by (simp add: exact_arith_def exact_def)
  have i: "\<exists>sr\<in>set [(''KB1'', ''0.6''), (''YL32'', ''0.4'')].
      ''luxS'' \<in> set (ids_of ''gene'' scenario_files (fst sr))"
    by code_simp
  have t: "claimed_total exact ''gene'' scenario_files ''luxS''
      [(''KB1'', ''0.6''), (''YL32'', ''0.4'')] = 3 / 5"
    by code_simp
  have g: "''luxS'' \<noteq> ''gene''"
    by simp
  from cell_is_sum_of_shares [OF m r s, of "''luxS''"]
  have "''luxS'' \<noteq> ''gene'' \<and> exact_arith exact \<longrightarrow>
      cell [(''sample1'', [(''alr'', 2 / 5), (''luxS'', 3 / 5 :: rat)])] ''sample1'' ''luxS''
      = (if \<exists>sr\<in>set [(''KB1'', ''0.6''), (''YL32'', ''0.4'')].
              ''luxS'' \<in> set (ids_of ''gene'' scenario_files (fst sr))
         then Some (claimed_total exact ''gene'' scenario_files ''luxS''
                [(''KB1'', ''0.6''), (''YL32'', ''0.4'')]) else None)"
    by blast
  with g e
  have "cell [(''sample1'', [(''alr'', 2 / 5), (''luxS'', 3 / 5 :: rat)])] ''sample1'' ''luxS''
      = (if \<exists>sr\<in>set [(''KB1'', ''0.6''), (''YL32'', ''0.4'')].
              ''luxS'' \<in> set (ids_of ''gene'' scenario_files (fst sr))
         then Some (claimed_total exact ''gene'' scenario_files ''luxS''
                [(''KB1'', ''0.6''), (''YL32'', ''0.4'')]) else None)"
    by blast
  then have c: "cell [(''sample1'', [(''alr'', 2 / 5), (''luxS'', 3 / 5 :: rat)])] ''sample1'' ''luxS''
      = Some (claimed_total exact ''gene'' scenario_files ''luxS''
                [(''KB1'', ''0.6''), (''YL32'', ''0.4'')])"
    by (simp only: i if_True)
  from m r e c t show ?thesis by blast
qed

text \<open>
  C1, as the specification has it, fails with Python's floats. A strain of abundance 1
  has six annotation rows, all of the gene alr. The specification gives alr the total
  \<open>6 * 1 / 6 = 1\<close>; the code adds the float \<open>1/6\<close> six times and gets
  \<open>0.9999999999999999\<close>, the float below 1.
\<close>

theorem cell_is_sum_of_shares_counterexample:
  "main float64 ''gene'' six_files six_relab
     = Inr [(''sample1'', [(''alr'', 9007199254740991 / 9007199254740992)])] \<and>
   read_relab six_relab = Inr [(''sample1'', [(''KB1'', ''1'')])] \<and>
   claimed_total float64 ''gene'' six_files ''alr'' [(''KB1'', ''1'')] = 1 \<and>
   cell [(''sample1'', [(''alr'', 9007199254740991 / 9007199254740992 :: rat)])] ''sample1'' ''alr''
     \<noteq> Some 1"
proof -
  have m: "main float64 ''gene'' six_files six_relab
      = Inr [(''sample1'', [(''alr'', 9007199254740991 / 9007199254740992)])]"
    by code_simp
  have r: "read_relab six_relab = Inr [(''sample1'', [(''KB1'', ''1'')])]"
    by code_simp
  have t: "claimed_total float64 ''gene'' six_files ''alr'' [(''KB1'', ''1'')] = 1"
    by code_simp
  have c: "cell [(''sample1'', [(''alr'', 9007199254740991 / 9007199254740992 :: rat)])]
      ''sample1'' ''alr'' \<noteq> Some 1"
    by (simp add: cell_def)
  from m r t c show ?thesis by blast
qed

lemma shares_of_nonempty:
  assumes "step_ok A ty files sr" and "strain_ids ty files (fst sr) = Inr ids"
    and "g \<in> set ids" and "g \<noteq> ''gene''"
  shows "shares_of A ty files g sr \<noteq> []"
  using assms shares_of_empty_iff [of A ty files sr g] by (simp add: ids_of_def)

lemma strain_ids_empty_file:
  assumes "filter (\<lambda>x. py_replace ''.tsv'' [] (basename (fst x)) = strain) files = infile # others"
    and "readlines (snd infile) = []"
  shows "strain_ids ty files strain =
           Inl (if ty \<in> set [''gene'', ''ko'', ''cog''] then IndexError else AssertionError)"
  using assms
  by (simp add: strain_ids_def build_annotation_def get_number_of_genes_def first_value_def)

subsection \<open>Every identifier but gene has an entry\<close>

text \<open>
  C5, as the code has it. After main has run without an error, every identifier other
  than the literal \<open>gene\<close> in the annotation list of a strain has an entry in the output
  for every sample under which the strain is listed.
\<close>

theorem identifier_has_entry:
  assumes "main A ty files relab_file = Inr out"
    and "read_relab relab_file = Inr relab"
    and "map_of relab sample = Some strains"
    and "sr \<in> set strains"
    and "strain_ids ty files (fst sr) = Inr ids"
    and "g \<in> set ids"
    and "g \<noteq> ''gene''"
  shows "\<exists>v. cell out sample g = Some v"
proof -
  have ok: "step_ok A ty files sr"
    by (rule main_step_ok [OF assms(1-4)])
  have "shares_of A ty files g sr \<noteq> []"
    by (rule shares_of_nonempty [OF ok assms(5-7)])
  with assms(4) have "concat (map (shares_of A ty files g) strains) \<noteq> []"
    by auto
  then show ?thesis
    using assms(7) by (simp add: main_cell [OF assms(1-3)] foldl_accum_Some)
qed

theorem identifier_has_entry_witness:
  "main exact ''gene'' scenario_files scenario_relab
     = Inr [(''sample1'', [(''alr'', 2 / 5), (''luxS'', 3 / 5)])] \<and>
   strain_ids ''gene'' scenario_files ''KB1'' = Inr [''alr'', ''alr'', ''luxS''] \<and>
   (\<exists>v. cell [(''sample1'', [(''alr'', 2 / 5), (''luxS'', 3 / 5 :: rat)])] ''sample1'' ''alr''
          = Some v)"
proof -
  have m: "main exact ''gene'' scenario_files scenario_relab
      = Inr [(''sample1'', [(''alr'', 2 / 5), (''luxS'', 3 / 5)])]"
    by code_simp
  have r: "read_relab scenario_relab
      = Inr [(''sample1'', [(''KB1'', ''0.6''), (''YL32'', ''0.4'')])]"
    by code_simp
  have s: "map_of [(''sample1'', [(''KB1'', ''0.6''), (''YL32'', ''0.4'')])] ''sample1''
      = Some [(''KB1'', ''0.6''), (''YL32'', ''0.4'')]"
    by simp
  have k: "(''KB1'', ''0.6'') \<in> set [(''KB1'', ''0.6''), (''YL32'', ''0.4'')]"
    by simp
  have i: "strain_ids ''gene'' scenario_files (fst (''KB1'', ''0.6''))
      = Inr [''alr'', ''alr'', ''luxS'']"
    by code_simp
  have g: "''alr'' \<in> set [''alr'', ''alr'', ''luxS'']" "''alr'' \<noteq> ''gene''"
    by simp_all
  from identifier_has_entry [OF m r s k i g] m i show ?thesis
    by simp
qed

text \<open>
  C5, as the specification has it, fails for the identifier \<open>gene\<close>, which the loop
  skips: an annotation file that starts with prokka's header row has \<open>gene\<close> in its
  annotation list, and the output has no entry for it.
\<close>

theorem identifier_has_entry_counterexample:
  "strain_ids ''gene'' header_files ''KB1'' = Inr [''gene'', ''alr''] \<and>
   read_relab six_relab = Inr [(''sample1'', [(''KB1'', ''1'')])] \<and>
   main float64 ''gene'' header_files six_relab = Inr [(''sample1'', [(''alr'', 1 / 2)])] \<and>
   cell [(''sample1'', [(''alr'', 1 / 2 :: rat)])] ''sample1'' ''gene'' = None"
proof -
  have i: "strain_ids ''gene'' header_files ''KB1'' = Inr [''gene'', ''alr'']"
    by code_simp
  have r: "read_relab six_relab = Inr [(''sample1'', [(''KB1'', ''1'')])]"
    by code_simp
  have m: "main float64 ''gene'' header_files six_relab = Inr [(''sample1'', [(''alr'', 1 / 2)])]"
    by code_simp
  have c: "cell [(''sample1'', [(''alr'', 1 / 2 :: rat)])] ''sample1'' ''gene'' = None"
    by (simp add: cell_def)
  from i r m c show ?thesis by blast
qed

subsection \<open>An empty annotation file\<close>

text \<open>
  C6. When the file that main picks for a strain has no rows, the step for that strain
  raises: \<open>build_annotation\<close> returns an empty dictionary and \<open>get_number_of_genes\<close> takes
  the first element of an empty list (IndexError; AssertionError before that when the
  annotation type is not one of the three). So the aggregation of any abundance table
  that lists the strain under a sample ends in an error, never in a table.
\<close>

theorem empty_annotation_file_raises:
  assumes "filter (\<lambda>x. py_replace ''.tsv'' [] (basename (fst x)) = strain) files = infile # others"
    and "readlines (snd infile) = []"
  shows "strain_step A ty files sample (strain, r) d =
           Inl (if ty \<in> set [''gene'', ''ko'', ''cog''] then IndexError else AssertionError) \<and>
         (\<forall>relab strains. map_of relab sample = Some strains \<and> (strain, r) \<in> set strains \<longrightarrow>
            (\<exists>e. aggregate A ty files relab = Inl e))"
proof (intro conjI allI impI)
  show "strain_step A ty files sample (strain, r) d =
      Inl (if ty \<in> set [''gene'', ''ko'', ''cog''] then IndexError else AssertionError)"
    by (simp add: strain_step_def strain_ids_empty_file [OF assms])
next
  fix relab strains
  assume h: "map_of relab sample = Some strains \<and> (strain, r) \<in> set strains"
  then have "(sample, strains) \<in> set relab" by (auto dest: map_of_SomeD)
  with h have mem: "(sample, strain, r) \<in> set (flatten relab)"
    by (force simp: flatten_def)
  have "\<not> step_ok A ty files (strain, r)"
    by (simp add: step_ok_def strain_ids_empty_file [OF assms])
  with mem have "\<not> list_all (\<lambda>x. step_ok A ty files (snd x)) (flatten relab)"
    by (force simp: list_all_iff)
  then have "\<not> (\<exists>out. aggregate A ty files relab = Inr out)"
    by (simp add: aggregate_ok)
  then show "\<exists>e. aggregate A ty files relab = Inl e"
    by (cases "aggregate A ty files relab") auto
qed

theorem empty_annotation_file_raises_witness:
  "filter (\<lambda>x. py_replace ''.tsv'' [] (basename (fst x)) = ''KB1'') empty_files
     = (''annotations/KB1.tsv'', []) # [] \<and>
   strain_step exact ''gene'' empty_files ''sample1'' (''KB1'', ''1'') [] = Inl IndexError \<and>
   (\<exists>e. aggregate exact ''gene'' empty_files [(''sample1'', [(''KB1'', ''1'')])] = Inl e) \<and>
   main exact ''gene'' empty_files six_relab = Inl IndexError"
proof -
  have f: "filter (\<lambda>x. py_replace ''.tsv'' [] (basename (fst x)) = ''KB1'') empty_files
      = (''annotations/KB1.tsv'', []) # []"
    by code_simp
  have e: "readlines (snd (''annotations/KB1.tsv'', [])) = []"
    by simp
  have m: "main exact ''gene'' empty_files six_relab = Inl IndexError"
    by code_simp
  have h: "map_of [(''sample1'', [(''KB1'', ''1'')])] ''sample1'' = Some [(''KB1'', ''1'')] \<and>
      (''KB1'', ''1'') \<in> set [(''KB1'', ''1'')]"
    by simp
  from empty_annotation_file_raises [OF f e, of exact "''gene''" "''sample1''" "''1''" "[]"]
  have 1: "strain_step exact ''gene'' empty_files ''sample1'' (''KB1'', ''1'') [] = Inl IndexError"
    and 2: "\<forall>relab strains. map_of relab ''sample1'' = Some strains \<and> (''KB1'', ''1'') \<in> set strains
          \<longrightarrow> (\<exists>e. aggregate exact ''gene'' empty_files relab = Inl e)"
    by simp_all
  from 2 h have "\<exists>e. aggregate exact ''gene'' empty_files [(''sample1'', [(''KB1'', ''1'')])] = Inl e"
    by blast
  with f 1 m show ?thesis by blast
qed

subsection \<open>The check of the files\<close>

text \<open>
  C7 fails on the code. \<open>check_files\<close> compares a strain with the whole path of the glob
  less \<open>.tsv\<close>, directory included, where main compares it with the base name. With the
  files \<open>annotations/KB1.tsv\<close> and \<open>annotations/YL32.tsv\<close> in place, main finds the
  annotations of both strains, and \<open>check_files\<close> still warns that the file of KB1 is not
  found. It also leaves its loop at the first warning: with no annotation file at all,
  only KB1 is reported, YL32 is not.
\<close>

theorem check_files_evaluated:
  "check_files scenario_relab (map fst scenario_files)
     = [''strain KB1 annotation file not found''] \<and>
   strain_ids ''gene'' scenario_files ''KB1'' = Inr [''alr'', ''alr'', ''luxS''] \<and>
   strain_ids ''gene'' scenario_files ''YL32'' = Inr [''luxS''] \<and>
   check_files scenario_relab [] = [''strain KB1 annotation file not found'']"
  by code_simp

subsection \<open>The output table\<close>

lemma add_gene_distinct:
  "add_gene A sample relab n g d = Inr d' \<Longrightarrow> distinct (map fst d) \<Longrightarrow> distinct (map fst d')"
  by (auto simp: add_gene_def dd_set_distinct split: if_splits option.splits sum.splits)

lemma genes_loop_distinct:
  "genes_loop A sample relab n ids d = Inr d' \<Longrightarrow> distinct (map fst d) \<Longrightarrow> distinct (map fst d')"
  by (induction ids arbitrary: d) (auto dest: add_gene_distinct split: sum.splits)

lemma strains_loop_distinct:
  "strains_loop A ty files sample strains d = Inr d' \<Longrightarrow> distinct (map fst d) \<Longrightarrow>
   distinct (map fst d')"
  by (induction strains arbitrary: d)
     (auto simp: strain_step_def dest: genes_loop_distinct split: sum.splits)

lemma samples_loop_distinct:
  "samples_loop A ty files relab d = Inr d' \<Longrightarrow> distinct (map fst d) \<Longrightarrow>
   distinct (map fst d')"
  by (induction relab arbitrary: d) (auto dest: strains_loop_distinct split: sum.splits)

lemma main_distinct: "main A ty files relab_file = Inr out \<Longrightarrow> distinct (map fst out)"
  by (auto simp: main_def aggregate_def dest: samples_loop_distinct split: sum.splits)

lemma cell_nth:
  "distinct (map fst d) \<Longrightarrow> j < length d \<Longrightarrow> cell d (fst (d ! j)) g = map_of (snd (d ! j)) g"
proof -
  assume dist: "distinct (map fst d)" and j: "j < length d"
  then have "(fst (d ! j), snd (d ! j)) \<in> set d" by simp
  with dist have "map_of d (fst (d ! j)) = Some (snd (d ! j))"
    by (simp only: map_of_eq_Some_iff)
  then show ?thesis by (simp add: cell_def)
qed

lemma set_frame_index: "set (frame_index d) = {g. \<exists>col\<in>set d. g \<in> fst ` set (snd col)}"
  by (auto simp: frame_index_def)

lemma frame_index_cells:
  "distinct (map fst d) \<Longrightarrow> set (frame_index d) = {g. \<exists>s v. cell d s g = Some v}"
proof -
  assume dist: "distinct (map fst d)"
  have "\<And>g. (\<exists>col\<in>set d. g \<in> fst ` set (snd col)) \<longleftrightarrow> (\<exists>s v. cell d s g = Some v)"
  proof
    fix g assume "\<exists>col\<in>set d. g \<in> fst ` set (snd col)"
    then obtain c where "c \<in> set d" and "g \<in> fst ` set (snd c)" by blast
    then have "(fst c, snd c) \<in> set d" and "g \<in> fst ` set (snd c)" by simp_all
    then obtain s m where col: "(s, m) \<in> set d" and g: "g \<in> fst ` set m"
      by blast
    from dist col have "map_of d s = Some m" by simp
    moreover from g obtain v where "map_of m g = Some v"
      by (metis domD dom_map_of_conv_image_fst)
    ultimately have "cell d s g = Some v" by (simp add: cell_def)
    then show "\<exists>s v. cell d s g = Some v" by blast
  next
    fix g assume "\<exists>s v. cell d s g = Some v"
    then obtain s v m where "map_of d s = Some m" and "map_of m g = Some v"
      by (auto simp: cell_def split: option.splits)
    then have "(s, m) \<in> set d" and "g \<in> fst ` set m"
      by (auto dest: map_of_SomeD intro: rev_image_eqI)
    then show "\<exists>col\<in>set d. g \<in> fst ` set (snd col)" by force
  qed
  then show ?thesis by (simp add: set_frame_index)
qed

text \<open>
  C8. For a dictionary of the samples' dictionaries (its keys distinct, as the keys of a
  Python dictionary are) and any annotation type: the first cell of the header row is the
  literal \<open>gene\<close>, the other header cells are the samples, the rows are headed by the
  identifiers that have a value for some sample, each once, and the cell of an identifier
  under a sample for which it has no value is blank.
\<close>

theorem output_table_layout:
  assumes "distinct (map fst gene_relabs)"
  shows "hd (hd (write_table repr ty gene_relabs)) = ''gene'' \<and>
     tl (hd (write_table repr ty gene_relabs)) = map fst gene_relabs \<and>
     map hd (tl (write_table repr ty gene_relabs)) = frame_index gene_relabs \<and>
     distinct (frame_index gene_relabs) \<and>
     set (frame_index gene_relabs) = {g. \<exists>s v. cell gene_relabs s g = Some v} \<and>
     (\<forall>i j. i < length (frame_index gene_relabs) \<and> j < length gene_relabs \<and>
            cell gene_relabs (fst (gene_relabs ! j)) (frame_index gene_relabs ! i) = None \<longrightarrow>
            tl (write_table repr ty gene_relabs) ! i ! Suc j = [])"
proof -
  have "\<forall>i j. i < length (frame_index gene_relabs) \<and> j < length gene_relabs \<and>
            cell gene_relabs (fst (gene_relabs ! j)) (frame_index gene_relabs ! i) = None \<longrightarrow>
            tl (write_table repr ty gene_relabs) ! i ! Suc j = []"
    by (auto simp: write_table_def to_csv_def cell_nth [OF assms])
  moreover have "map hd (tl (write_table repr ty gene_relabs)) = frame_index gene_relabs"
    by (simp add: write_table_def to_csv_def comp_def)
  moreover have "distinct (frame_index gene_relabs)"
    by (simp add: frame_index_def)
  ultimately show ?thesis
    using frame_index_cells [OF assms] by (simp add: write_table_def to_csv_def)
qed

theorem output_table_layout_witness:
  "distinct (map fst [(''s1'', [(''alr'', 1 :: rat)]), (''s2'', [(''luxS'', 2)])]) \<and>
   write_table (\<lambda>v. if v = 1 then ''1.0'' else ''2.0'') ''ko''
       [(''s1'', [(''alr'', 1 :: rat)]), (''s2'', [(''luxS'', 2)])]
     = [[''gene'', ''s1'', ''s2''], [''alr'', ''1.0'', []], [''luxS'', [], ''2.0'']] \<and>
   hd (hd (write_table (\<lambda>v. if v = 1 then ''1.0'' else ''2.0'') ''ko''
       [(''s1'', [(''alr'', 1 :: rat)]), (''s2'', [(''luxS'', 2)])])) = ''gene''"
proof -
  have d: "distinct (map fst [(''s1'', [(''alr'', 1 :: rat)]), (''s2'', [(''luxS'', 2)])])"
    by simp
  have w: "write_table (\<lambda>v. if v = 1 then ''1.0'' else ''2.0'') ''ko''
       [(''s1'', [(''alr'', 1 :: rat)]), (''s2'', [(''luxS'', 2)])]
     = [[''gene'', ''s1'', ''s2''], [''alr'', ''1.0'', []], [''luxS'', [], ''2.0'']]"
    by (simp add: write_table_def to_csv_def frame_index_def)
  from output_table_layout [OF d, of "\<lambda>v. if v = 1 then ''1.0'' else ''2.0''" "''ko''"]
  have "hd (hd (write_table (\<lambda>v. if v = 1 then ''1.0'' else ''2.0'') ''ko''
       [(''s1'', [(''alr'', 1 :: rat)]), (''s2'', [(''luxS'', 2)])])) = ''gene''"
    by blast
  with d w show ?thesis by blast
qed

subsection \<open>Two rows for one strain in the abundance table\<close>

lemma relab_cols_cell:
  assumes "\<forall>i\<in>set cols. i < length data"
  shows "\<exists>d'. relab_cols samples data strain cols d = Inr d' \<and>
     (\<forall>a b. cell d' a b =
        (if b = strain \<and> (\<exists>i\<in>set cols. samples ! i = a)
         then Some (data ! last_col samples cols a)
         else cell d a b))"
  using assms
proof (induction cols arbitrary: d)
  case Nil
  then show ?case by simp
next
  case (Cons i cols)
  let ?d1 = "dd_set d (samples ! i) strain (data ! i)"
  from Cons.prems have "\<forall>i\<in>set cols. i < length data" by simp
  from Cons.IH [OF this, of ?d1] obtain d' where
    run: "relab_cols samples data strain cols ?d1 = Inr d'" and
    cells: "\<And>a b. cell d' a b =
        (if b = strain \<and> (\<exists>i\<in>set cols. samples ! i = a)
         then Some (data ! last_col samples cols a)
         else cell ?d1 a b)"
    by blast
  have "relab_cols samples data strain (i # cols) d = Inr d'"
    using Cons.prems run by simp
  moreover have "\<And>a b. cell d' a b =
        (if b = strain \<and> (\<exists>j\<in>set (i # cols). samples ! j = a)
         then Some (data ! last_col samples (i # cols) a)
         else cell d a b)"
    by (auto simp: cells cell_dd_set last_col_def filter_empty_conv)
  ultimately show ?case by blast
qed

lemma relab_rows_cell:
  assumes "\<forall>line\<in>set lines. length samples \<le> length (split_on tab (strip_nl line))"
  shows "\<exists>d'. relab_rows samples lines d = Inr d' \<and>
     (\<forall>a b. cell d' a b =
        (if (\<exists>i\<in>set [1..<length samples]. samples ! i = a) \<and>
            (\<exists>line\<in>set lines. hd (split_on tab (strip_nl line)) = b)
         then Some (last (filter (\<lambda>row. hd row = b)
                            (map (\<lambda>line. split_on tab (strip_nl line)) lines))
                    ! last_col samples [1..<length samples] a)
         else cell d a b))"
  using assms
proof (induction lines arbitrary: d)
  case Nil
  then show ?case by simp
next
  case (Cons line lines)
  let ?data = "split_on tab (strip_nl line)"
  have "\<forall>i\<in>set [1..<length samples]. i < length ?data"
    using Cons.prems by auto
  from relab_cols_cell [OF this, of samples "hd ?data" d] obtain d1 where
    r1: "relab_cols samples ?data (hd ?data) [1..<length samples] d = Inr d1" and
    c1: "\<And>a b. cell d1 a b =
        (if b = hd ?data \<and> (\<exists>i\<in>set [1..<length samples]. samples ! i = a)
         then Some (?data ! last_col samples [1..<length samples] a)
         else cell d a b)"
    by blast
  from Cons.prems have "\<forall>line\<in>set lines. length samples \<le> length (split_on tab (strip_nl line))"
    by simp
  from Cons.IH [OF this, of d1] obtain d' where
    r2: "relab_rows samples lines d1 = Inr d'" and
    c2: "\<And>a b. cell d' a b =
        (if (\<exists>i\<in>set [1..<length samples]. samples ! i = a) \<and>
            (\<exists>line\<in>set lines. hd (split_on tab (strip_nl line)) = b)
         then Some (last (filter (\<lambda>row. hd row = b)
                            (map (\<lambda>line. split_on tab (strip_nl line)) lines))
                    ! last_col samples [1..<length samples] a)
         else cell d1 a b)"
    by blast
  have run: "relab_rows samples (line # lines) d = Inr d'"
    using r1 r2 by (simp add: Let_def)
  have ne: "\<And>b. (filter (\<lambda>row. hd row = b) (map (\<lambda>line. split_on tab (strip_nl line)) lines) = [])
      \<longleftrightarrow> \<not> (\<exists>line\<in>set lines. hd (split_on tab (strip_nl line)) = b)"
    by (auto simp: filter_empty_conv)
  have "\<And>a b. cell d' a b =
        (if (\<exists>i\<in>set [1..<length samples]. samples ! i = a) \<and>
            (\<exists>l\<in>set (line # lines). hd (split_on tab (strip_nl l)) = b)
         then Some (last (filter (\<lambda>row. hd row = b)
                            (map (\<lambda>line. split_on tab (strip_nl line)) (line # lines)))
                    ! last_col samples [1..<length samples] a)
         else cell d a b)"
    using ne by (auto simp: c1 c2)
  with run show ?case by blast
qed

lemma filter_eq_singleton: "distinct xs \<Longrightarrow> i \<in> set xs \<Longrightarrow> filter (\<lambda>j. j = i) xs = [i]"
  by (induction xs) (auto simp: filter_empty_conv)

lemma last_col_distinct:
  assumes "distinct (tl samples)" and "1 \<le> i" and "i < length samples"
  shows "last_col samples [1..<length samples] (samples ! i) = i"
proof -
  have nth: "\<And>j. 1 \<le> j \<Longrightarrow> j < length samples \<Longrightarrow> samples ! j = tl samples ! (j - 1)"
    by (cases samples) (auto simp: nth_Cons')
  have "filter (\<lambda>j. samples ! j = samples ! i) [1..<length samples]
      = filter (\<lambda>j. j = i) [1..<length samples]"
  proof (rule filter_cong [OF refl])
    fix j assume "j \<in> set [1..<length samples]"
    then have j: "1 \<le> j" "j < length samples" by auto
    then have "j - 1 < length (tl samples)" "i - 1 < length (tl samples)"
      using assms by auto
    with assms(1) have "tl samples ! (j - 1) = tl samples ! (i - 1) \<longleftrightarrow> j - 1 = i - 1"
      by (simp add: nth_eq_iff_index_eq)
    with j assms show "(samples ! j = samples ! i) = (j = i)"
      by (auto simp: nth)
  qed
  also have "\<dots> = [i]"
    using assms by (intro filter_eq_singleton) auto
  finally show ?thesis by (simp add: last_col_def)
qed

text \<open>
  C10, as the code has it. When every row of the abundance file has a field for every
  column of the header,
  \<open>read_relab\<close> raises nothing, however often a strain name occurs, and the entry of a
  strain under a sample is the field of the last row that starts with the strain's name,
  in the last column headed by the sample (the sample's own column when the sample names
  differ): a later row overwrites an earlier one.
\<close>

theorem duplicate_strain_last_row_wins:
  assumes "\<forall>row\<in>set (rows_of relab_file). length (header_of relab_file) \<le> length row"
  shows "\<exists>d. read_relab relab_file = Inr d \<and>
     (\<forall>i strain. 1 \<le> i \<and> i < length (header_of relab_file) \<and>
                 strain \<in> set (map hd (rows_of relab_file)) \<longrightarrow>
        cell d (header_of relab_file ! i) strain =
          Some (last (filter (\<lambda>row. hd row = strain) (rows_of relab_file))
                ! last_col (header_of relab_file) [1..<length (header_of relab_file)]
                    (header_of relab_file ! i)) \<and>
        (distinct (tl (header_of relab_file)) \<longrightarrow>
           last_col (header_of relab_file) [1..<length (header_of relab_file)]
             (header_of relab_file ! i) = i))"
proof -
  let ?samples = "header_of relab_file"
  let ?lines = "tl (readlines relab_file)"
  have "\<forall>line\<in>set ?lines. length ?samples \<le> length (split_on tab (strip_nl line))"
    using assms by (simp add: rows_of_def)
  from relab_rows_cell [OF this, of "[]"] obtain d where
    run: "relab_rows ?samples ?lines [] = Inr d" and
    cells: "\<And>a b. cell d a b =
        (if (\<exists>i\<in>set [1..<length ?samples]. ?samples ! i = a) \<and>
            (\<exists>line\<in>set ?lines. hd (split_on tab (strip_nl line)) = b)
         then Some (last (filter (\<lambda>row. hd row = b)
                            (map (\<lambda>line. split_on tab (strip_nl line)) ?lines))
                    ! last_col ?samples [1..<length ?samples] a)
         else cell [] a b)"
    by blast
  have "read_relab relab_file = Inr d"
    using run by (simp add: read_relab_def header_of_def Let_def)
  moreover have "\<forall>i strain. 1 \<le> i \<and> i < length ?samples \<and>
                 strain \<in> set (map hd (rows_of relab_file)) \<longrightarrow>
        cell d (?samples ! i) strain =
          Some (last (filter (\<lambda>row. hd row = strain) (rows_of relab_file))
                ! last_col ?samples [1..<length ?samples] (?samples ! i)) \<and>
        (distinct (tl ?samples) \<longrightarrow>
           last_col ?samples [1..<length ?samples] (?samples ! i) = i)"
  proof (intro allI impI conjI)
    fix i strain
    assume "1 \<le> i \<and> i < length ?samples \<and> strain \<in> set (map hd (rows_of relab_file))"
    then show "cell d (?samples ! i) strain =
          Some (last (filter (\<lambda>row. hd row = strain) (rows_of relab_file))
                ! last_col ?samples [1..<length ?samples] (?samples ! i))"
      by (auto simp: cells rows_of_def)
  next
    fix i strain
    assume "1 \<le> i \<and> i < length ?samples \<and> strain \<in> set (map hd (rows_of relab_file))"
      and "distinct (tl ?samples)"
    then show "last_col ?samples [1..<length ?samples] (?samples ! i) = i"
      by (intro last_col_distinct) simp_all
  qed
  ultimately show ?thesis by blast
qed

theorem duplicate_strain_last_row_wins_witness:
  "list_all (\<lambda>row. length (header_of dup_relab) \<le> length row) (rows_of dup_relab) \<and>
   read_relab dup_relab =
     Inr [(''s1'', [(''KB1'', ''0.3''), (''YL32'', ''0.5'')]),
          (''s2'', [(''KB1'', ''0.4''), (''YL32'', ''0.6'')])] \<and>
   header_of dup_relab ! 2 = ''s2'' \<and>
   cell [(''s1'', [(''KB1'', ''0.3''), (''YL32'', ''0.5'')]),
         (''s2'', [(''KB1'', ''0.4''), (''YL32'', ''0.6'')])] ''s2'' ''KB1'' = Some ''0.4''"
proof -
  have w: "\<forall>row\<in>set (rows_of dup_relab). length (header_of dup_relab) \<le> length row"
    by code_simp
  have r: "read_relab dup_relab =
     Inr [(''s1'', [(''KB1'', ''0.3''), (''YL32'', ''0.5'')]),
          (''s2'', [(''KB1'', ''0.4''), (''YL32'', ''0.6'')])]"
    by code_simp
  have h: "header_of dup_relab ! 2 = ''s2''"
    by code_simp
  have i: "(1::nat) \<le> 2 \<and> 2 < length (header_of dup_relab) \<and>
      ''KB1'' \<in> set (map hd (rows_of dup_relab))"
    by code_simp
  have v: "last (filter (\<lambda>row. hd row = ''KB1'') (rows_of dup_relab))
                ! last_col (header_of dup_relab) [1..<length (header_of dup_relab)]
                    (header_of dup_relab ! 2) = ''0.4''"
    by code_simp
  from duplicate_strain_last_row_wins [OF w] obtain d where
    d: "read_relab dup_relab = Inr d" and
    c: "\<forall>i strain. 1 \<le> i \<and> i < length (header_of dup_relab) \<and>
                 strain \<in> set (map hd (rows_of dup_relab)) \<longrightarrow>
        cell d (header_of dup_relab ! i) strain =
          Some (last (filter (\<lambda>row. hd row = strain) (rows_of dup_relab))
                ! last_col (header_of dup_relab) [1..<length (header_of dup_relab)]
                    (header_of dup_relab ! i)) \<and>
        (distinct (tl (header_of dup_relab)) \<longrightarrow>
           last_col (header_of dup_relab) [1..<length (header_of dup_relab)]
             (header_of dup_relab ! i) = i)"
    by blast
  from c i have "cell d (header_of dup_relab ! 2) ''KB1'' =
      Some (last (filter (\<lambda>row. hd row = ''KB1'') (rows_of dup_relab))
                ! last_col (header_of dup_relab) [1..<length (header_of dup_relab)]
                    (header_of dup_relab ! 2))"
    by blast
  with v h have "cell d ''s2'' ''KB1'' = Some ''0.4''"
    by simp
  moreover from d r have "d = [(''s1'', [(''KB1'', ''0.3''), (''YL32'', ''0.5'')]),
          (''s2'', [(''KB1'', ''0.4''), (''YL32'', ''0.6'')])]"
    by simp
  moreover from w
  have "list_all (\<lambda>row. length (header_of dup_relab) \<le> length row) (rows_of dup_relab)"
    by (simp add: list_all_iff)
  ultimately show ?thesis using r h by blast
qed

text \<open>
  C10, without the condition on the rows, fails: the second row for KB1 has no field for
  the sample s2, and \<open>read_relab\<close> raises IndexError at \<open>data[2]\<close>.
\<close>

theorem duplicate_strain_short_row_counterexample:
  "map hd (rows_of short_relab) = [''KB1'', ''KB1''] \<and>
   read_relab short_relab = Inl IndexError"
  by code_simp

subsection \<open>The order of samples, strains and annotation rows\<close>

lemma annotation_of_line_error: "annotation_of_line l = Inl e \<Longrightarrow> e = IndexError"
  by (simp add: annotation_of_line_def annotation_of_fields_def split: if_splits)

lemma build_loop_Inr:
  assumes "ty \<in> set [''gene'', ''ko'', ''cog'']"
    and "\<forall>l\<in>set lines. \<exists>v. line_id ty l = Inr v"
  shows "build_loop ty strain lines acc =
     Inr (if lines = [] then acc
          else AList.update strain
                 ((case map_of acc strain of None \<Rightarrow> [] | Some vs \<Rightarrow> vs)
                    @ map (\<lambda>l. projr (line_id ty l)) lines) acc)"
  using assms(2)
proof (induction lines arbitrary: acc)
  case Nil
  then show ?case by simp
next
  case (Cons l lines)
  from Cons.prems obtain v where v: "line_id ty l = Inr v" by auto
  then obtain a where a: "annotation_of_line l = Inr a"
    and va: "v = (if ty = ''gene'' then gene a else if ty = ''ko'' then ec a else cog a)"
    by (auto simp: line_id_def split: sum.splits)
  have step: "build_loop ty strain (l # lines) acc
      = build_loop ty strain lines (dl_append acc strain v)"
    using assms(1) a va by auto
  from Cons.prems have rest: "\<forall>l\<in>set lines. \<exists>v. line_id ty l = Inr v" by simp
  show ?case
    unfolding step Cons.IH [OF rest]
    by (simp add: v dl_append_def update_conv')
qed

lemma build_loop_Inl:
  assumes "ty \<in> set [''gene'', ''ko'', ''cog'']"
    and "\<exists>l\<in>set lines. \<exists>e. line_id ty l = Inl e"
  shows "build_loop ty strain lines acc = Inl IndexError"
  using assms(2)
proof (induction lines arbitrary: acc)
  case Nil
  then show ?case by simp
next
  case (Cons l lines)
  show ?case
  proof (cases "annotation_of_line l")
    case (Inl e)
    then show ?thesis using annotation_of_line_error [OF Inl] by simp
  next
    case (Inr a)
    with Cons.prems have "\<exists>l\<in>set lines. \<exists>e. line_id ty l = Inl e"
      by (auto simp: line_id_def)
    from Cons.IH [OF this] Inr assms(1) show ?thesis by auto
  qed
qed

lemma strain_ids_eq:
  "strain_ids ty files strain =
     (case filter (\<lambda>x. py_replace ''.tsv'' [] (basename (fst x)) = strain) files of
        [] \<Rightarrow> Inl IndexError
      | infile # _ \<Rightarrow> lines_ids ty (readlines (snd infile)))"
proof (cases "filter (\<lambda>x. py_replace ''.tsv'' [] (basename (fst x)) = strain) files")
  case Nil
  then show ?thesis by (simp add: strain_ids_def)
next
  case (Cons infile others)
  show ?thesis
  proof (cases "ty \<in> set [''gene'', ''ko'', ''cog'']")
    case False
    with Cons show ?thesis by (simp add: strain_ids_def build_annotation_def lines_ids_def)
  next
    case True
    show ?thesis
    proof (cases "\<exists>l\<in>set (readlines (snd infile)). \<exists>e. line_id ty l = Inl e")
      case bad: True
      from build_loop_Inl [OF True bad] Cons True bad show ?thesis
        by (simp add: strain_ids_def build_annotation_def lines_ids_def)
    next
      case good: False
      then have "\<forall>l\<in>set (readlines (snd infile)). \<exists>v. line_id ty l = Inr v"
        by (metis sum.exhaust)
      from build_loop_Inr [OF True this] Cons True good show ?thesis
        by (simp add: strain_ids_def build_annotation_def get_number_of_genes_def
                      first_value_def lines_ids_def)
    qed
  qed
qed

lemma lines_ids_mset:
  assumes "mset ls = mset ls'"
  shows "(\<exists>e. lines_ids ty ls = Inl e \<and> lines_ids ty ls' = Inl e) \<or>
         (\<exists>ids ids'. lines_ids ty ls = Inr ids \<and> lines_ids ty ls' = Inr ids' \<and>
                      mset ids = mset ids')"
proof -
  from assms have s: "set ls = set ls'"
    by (rule mset_eq_setD)
  from assms have e: "ls = [] \<longleftrightarrow> ls' = []"
    by (metis mset_zero_iff)
  from assms have m: "mset (map (\<lambda>l. projr (line_id ty l)) ls)
        = mset (map (\<lambda>l. projr (line_id ty l)) ls')"
    by simp
  show ?thesis
  proof (cases "ty \<notin> set [''gene'', ''ko'', ''cog'']")
    case True
    then have "lines_ids ty ls = Inl AssertionError" "lines_ids ty ls' = Inl AssertionError"
      by (simp_all add: lines_ids_def)
    then show ?thesis by blast
  next
    case valid: False
    show ?thesis
    proof (cases "(\<exists>l\<in>set ls. \<exists>e. line_id ty l = Inl e) \<or> ls = []")
      case True
      with s e have "(\<exists>l\<in>set ls'. \<exists>e. line_id ty l = Inl e) \<or> ls' = []" by simp
      with True valid have "lines_ids ty ls = Inl IndexError" "lines_ids ty ls' = Inl IndexError"
        unfolding lines_ids_def by (simp_all only: if_True if_False)
      then show ?thesis by blast
    next
      case False
      with s e have "\<not> ((\<exists>l\<in>set ls'. \<exists>e. line_id ty l = Inl e) \<or> ls' = [])" by simp
      with False valid
      have "lines_ids ty ls = Inr (map (\<lambda>l. projr (line_id ty l)) ls)"
        "lines_ids ty ls' = Inr (map (\<lambda>l. projr (line_id ty l)) ls')"
        unfolding lines_ids_def by (simp_all only: if_True if_False)
      with m show ?thesis by blast
    qed
  qed
qed

lemma filter_same_rows:
  assumes "same_rows files files'"
  shows "same_rows (filter (\<lambda>x. P (fst x)) files) (filter (\<lambda>x. P (fst x)) files')"
  using assms unfolding same_rows_def
  by (induction rule: list_all2_induct) auto

lemma strain_ids_same_rows:
  assumes "same_rows files files'"
  shows "(\<exists>e. strain_ids ty files strain = Inl e \<and> strain_ids ty files' strain = Inl e) \<or>
         (\<exists>ids ids'. strain_ids ty files strain = Inr ids \<and>
                      strain_ids ty files' strain = Inr ids' \<and> mset ids = mset ids')"
proof -
  let ?P = "\<lambda>p. py_replace ''.tsv'' [] (basename p) = strain"
  have rel: "same_rows (filter (\<lambda>x. ?P (fst x)) files) (filter (\<lambda>x. ?P (fst x)) files')"
    by (rule filter_same_rows [OF assms])
  show ?thesis
  proof (cases "filter (\<lambda>x. ?P (fst x)) files")
    case Nil
    with rel have "filter (\<lambda>x. ?P (fst x)) files' = []" by (simp add: same_rows_def)
    with Nil show ?thesis by (simp add: strain_ids_eq)
  next
    case (Cons infile others)
    with rel obtain infile' others' where
      c': "filter (\<lambda>x. ?P (fst x)) files' = infile' # others'" and
      m: "mset (readlines (snd infile)) = mset (readlines (snd infile'))"
      by (auto simp: same_rows_def list_all2_Cons1)
    from lines_ids_mset [OF m, of ty] Cons c' show ?thesis
      by (simp add: strain_ids_eq)
  qed
qed

lemma list_all_mset: "mset xs = mset ys \<Longrightarrow> list_all P xs = list_all P ys"
  by (auto simp: list_all_iff dest: mset_eq_setD)

lemma count_list_mset: "mset xs = mset ys \<Longrightarrow> count_list xs g = count_list ys g"
  by (metis count_mset)

lemma shares_of_same_rows:
  assumes "same_rows files files'"
  shows "shares_of A ty files' g sr = shares_of A ty files g sr"
  using strain_ids_same_rows [OF assms, of ty "fst sr"]
proof (elim disjE exE conjE)
  fix e assume "strain_ids ty files (fst sr) = Inl e" "strain_ids ty files' (fst sr) = Inl e"
  then show ?thesis by (simp add: shares_of_def)
next
  fix ids ids'
  assume i: "strain_ids ty files (fst sr) = Inr ids" "strain_ids ty files' (fst sr) = Inr ids'"
    and m: "mset ids = mset ids'"
  from m have "length ids = length ids'" "count_list ids g = count_list ids' g"
    by (auto dest: mset_eq_length count_list_mset)
  with i show ?thesis by (simp add: shares_of_def split: sum.splits)
qed

lemma step_ok_same_rows:
  assumes "same_rows files files'"
  shows "step_ok A ty files' sr = step_ok A ty files sr"
  using strain_ids_same_rows [OF assms, of ty "fst sr"]
proof (elim disjE exE conjE)
  fix e assume "strain_ids ty files (fst sr) = Inl e" "strain_ids ty files' (fst sr) = Inl e"
  then show ?thesis by (simp add: step_ok_def)
next
  fix ids ids'
  assume i: "strain_ids ty files (fst sr) = Inr ids" "strain_ids ty files' (fst sr) = Inr ids'"
    and m: "mset ids = mset ids'"
  from m have "length ids = length ids'"
    "list_all (\<lambda>g. g = ''gene'') ids = list_all (\<lambda>g. g = ''gene'') ids'"
    by (auto dest: mset_eq_length list_all_mset)
  with i show ?thesis by (simp add: step_ok_def)
qed

lemma accum_commute:
  assumes "ac_add A"
  shows "accum A (accum A t x) y = accum A (accum A t y) x"
  using assms by (cases t) (auto simp: accum_def ac_add_def)

lemma foldl_accum_mset:
  assumes "ac_add A" and "mset xs = mset ys"
  shows "foldl (accum A) t xs = foldl (accum A) t ys"
proof -
  have "fold (\<lambda>x s. accum A s x) xs = fold (\<lambda>x s. accum A s x) ys"
    by (rule fold_multiset_equiv) (auto simp: fun_eq_iff accum_commute [OF assms(1)] assms(2))
  then show ?thesis by (simp add: foldl_conv_fold)
qed

lemma mset_concat_map: "mset (concat (map f xs)) = (\<Sum>x\<in>#mset xs. mset (f x))"
  by (induction xs) simp_all

lemma mset_flatten:
  "mset (flatten relab) =
     (\<Sum>p\<in>#mset (map (\<lambda>ss. (fst ss, mset (snd ss))) relab). image_mset (Pair (fst p)) (snd p))"
  by (induction relab) (simp_all add: flatten_def)

lemma same_entries_flatten: "same_entries relab relab' \<Longrightarrow> mset (flatten relab) = mset (flatten relab')"
  by (simp only: mset_flatten same_entries_def)

lemma foldl_accum_None_iff: "foldl (accum A) None xs = None \<longleftrightarrow> xs = []"
  using foldl_accum_Some [of xs A None] by (cases "xs = []") auto

text \<open>
  C4, as the code has it. Let the annotation files have the same lines in another order
  and the abundance dictionary the same samples and, under each sample, the same strains
  in another order. Then, whatever the arithmetic, the aggregation raises an error on both
  inputs or on neither, and the two outputs have an entry in the same cells. When the
  machine's addition is commutative and associative (as exact addition is), every cell of
  the two outputs holds the same total.
\<close>

theorem order_independent:
  assumes "same_rows files files'" and "same_entries relab relab'"
  shows "(\<forall>e. aggregate A ty files relab = Inl e \<longrightarrow>
            (\<exists>e'. aggregate A ty files' relab' = Inl e')) \<and>
         (\<forall>out. aggregate A ty files relab = Inr out \<longrightarrow>
            (\<exists>out'. aggregate A ty files' relab' = Inr out' \<and>
                    (\<forall>s g. (cell out' s g = None) = (cell out s g = None)) \<and>
                    (ac_add A \<longrightarrow> (\<forall>s g. cell out' s g = cell out s g))))"
proof -
  have fl: "mset (flatten relab) = mset (flatten relab')"
    by (rule same_entries_flatten [OF assms(2)])
  have ok: "(\<exists>out. aggregate A ty files relab = Inr out) \<longleftrightarrow>
            (\<exists>out'. aggregate A ty files' relab' = Inr out')"
    using mset_eq_setD [OF fl]
    by (simp add: aggregate_ok list_all_iff step_ok_same_rows [OF assms(1)])
  have shares: "mset (concat (map (\<lambda>x. shares_of A ty files g (snd x))
                            (filter (\<lambda>x. fst x = s) (flatten relab))))
        = mset (concat (map (\<lambda>x. shares_of A ty files g (snd x))
                            (filter (\<lambda>x. fst x = s) (flatten relab'))))" for s g
    by (simp add: mset_concat_map fl)
  have entries: "(cell out' s g = None) = (cell out s g = None)"
    if "aggregate A ty files relab = Inr out" and "aggregate A ty files' relab' = Inr out'"
    for out out' s g
  proof -
    from shares [of g s]
    have "concat (map (\<lambda>x. shares_of A ty files g (snd x))
                      (filter (\<lambda>x. fst x = s) (flatten relab))) = [] \<longleftrightarrow>
          concat (map (\<lambda>x. shares_of A ty files g (snd x))
                      (filter (\<lambda>x. fst x = s) (flatten relab'))) = []"
      by (metis mset_zero_iff)
    then show ?thesis
      by (simp add: aggregate_cell [OF that(1)] aggregate_cell [OF that(2)]
                    shares_of_same_rows [OF assms(1)] foldl_accum_None_iff)
  qed
  have cells: "cell out' s g = cell out s g"
    if "ac_add A" and "aggregate A ty files relab = Inr out"
      and "aggregate A ty files' relab' = Inr out'"
    for out out' s g
    using foldl_accum_mset [OF that(1) shares [of g s], of None]
    by (simp add: aggregate_cell [OF that(2)] aggregate_cell [OF that(3)]
                  shares_of_same_rows [OF assms(1)])
  show ?thesis
  proof (intro conjI allI impI)
    fix e assume "aggregate A ty files relab = Inl e"
    with ok have "\<not> (\<exists>out'. aggregate A ty files' relab' = Inr out')" by simp
    then show "\<exists>e'. aggregate A ty files' relab' = Inl e'"
      by (cases "aggregate A ty files' relab'") auto
  next
    fix out assume a: "aggregate A ty files relab = Inr out"
    with ok obtain out' where b: "aggregate A ty files' relab' = Inr out'" by blast
    have "\<forall>s g. (cell out' s g = None) = (cell out s g = None)"
      using entries [OF a b] by blast
    moreover have "ac_add A \<longrightarrow> (\<forall>s g. cell out' s g = cell out s g)"
      using cells [OF _ a b] by blast
    ultimately show "\<exists>out'. aggregate A ty files' relab' = Inr out' \<and>
        (\<forall>s g. (cell out' s g = None) = (cell out s g = None)) \<and>
        (ac_add A \<longrightarrow> (\<forall>s g. cell out' s g = cell out s g))"
      using b by blast
  qed
qed

theorem order_independent_witness:
  "ac_add exact \<and>
   same_rows scenario_files scenario_files_permuted \<and>
   same_entries [(''sample1'', [(''KB1'', ''0.6''), (''YL32'', ''0.4'')])]
                [(''sample1'', [(''YL32'', ''0.4''), (''KB1'', ''0.6'')])] \<and>
   aggregate exact ''gene'' scenario_files [(''sample1'', [(''KB1'', ''0.6''), (''YL32'', ''0.4'')])]
     = Inr [(''sample1'', [(''alr'', 2 / 5), (''luxS'', 3 / 5)])] \<and>
   aggregate exact ''gene'' scenario_files_permuted
       [(''sample1'', [(''YL32'', ''0.4''), (''KB1'', ''0.6'')])]
     = Inr [(''sample1'', [(''luxS'', 3 / 5), (''alr'', 2 / 5)])] \<and>
   cell [(''sample1'', [(''luxS'', 3 / 5), (''alr'', 2 / 5 :: rat)])] ''sample1'' ''luxS''
     = cell [(''sample1'', [(''alr'', 2 / 5), (''luxS'', 3 / 5 :: rat)])] ''sample1'' ''luxS''"
proof -
  have a: "ac_add exact"
    by (simp add: ac_add_def exact_def)
  have r: "same_rows scenario_files scenario_files_permuted"
    by code_simp
  have e: "same_entries [(''sample1'', [(''KB1'', ''0.6''), (''YL32'', ''0.4'')])]
                [(''sample1'', [(''YL32'', ''0.4''), (''KB1'', ''0.6'')])]"
    by code_simp
  have x: "aggregate exact ''gene'' scenario_files
      [(''sample1'', [(''KB1'', ''0.6''), (''YL32'', ''0.4'')])]
     = Inr [(''sample1'', [(''alr'', 2 / 5), (''luxS'', 3 / 5)])]"
    by code_simp
  have y: "aggregate exact ''gene'' scenario_files_permuted
       [(''sample1'', [(''YL32'', ''0.4''), (''KB1'', ''0.6'')])]
     = Inr [(''sample1'', [(''luxS'', 3 / 5), (''alr'', 2 / 5)])]"
    by code_simp
  from order_independent [OF r e, of exact "''gene''"] x a obtain out' where
    "aggregate exact ''gene'' scenario_files_permuted
       [(''sample1'', [(''YL32'', ''0.4''), (''KB1'', ''0.6'')])] = Inr out'"
    and "\<forall>s g. cell out' s g = cell [(''sample1'', [(''alr'', 2 / 5), (''luxS'', 3 / 5)])] s g"
    by blast
  with y have "cell [(''sample1'', [(''luxS'', 3 / 5), (''alr'', 2 / 5 :: rat)])] ''sample1'' ''luxS''
     = cell [(''sample1'', [(''alr'', 2 / 5), (''luxS'', 3 / 5 :: rat)])] ''sample1'' ''luxS''"
    by simp
  with a r e x y show ?thesis by blast
qed

text \<open>
  C4, as the specification has it, fails with Python's floats, whose addition is not
  associative. Three strains carry the gene x with the abundances 0.1, 0.2 and 0.3.
  With the rows of the abundance table in this order the total of x is
  \<open>(0.1 + 0.2) + 0.3 = 0.6000000000000001\<close>; with the rows in the opposite order it is
  \<open>(0.3 + 0.2) + 0.1 = 0.6\<close>.
\<close>

theorem order_independent_counterexample:
  "same_rows abc_files abc_files \<and>
   read_relab abc_relab = Inr [(''s1'', [(''A'', ''0.1''), (''B'', ''0.2''), (''C'', ''0.3'')])] \<and>
   read_relab cba_relab = Inr [(''s1'', [(''C'', ''0.3''), (''B'', ''0.2''), (''A'', ''0.1'')])] \<and>
   same_entries [(''s1'', [(''A'', ''0.1''), (''B'', ''0.2''), (''C'', ''0.3'')])]
                [(''s1'', [(''C'', ''0.3''), (''B'', ''0.2''), (''A'', ''0.1'')])] \<and>
   main float64 ''gene'' abc_files abc_relab
     = Inr [(''s1'', [(''x'', 1351079888211149 / 2251799813685248)])] \<and>
   main float64 ''gene'' abc_files cba_relab
     = Inr [(''s1'', [(''x'', 5404319552844595 / 9007199254740992)])] \<and>
   cell [(''s1'', [(''x'', 1351079888211149 / 2251799813685248 :: rat)])] ''s1'' ''x''
     \<noteq> cell [(''s1'', [(''x'', 5404319552844595 / 9007199254740992 :: rat)])] ''s1'' ''x''"
proof -
  have r: "same_rows abc_files abc_files"
    by code_simp
  have p: "read_relab abc_relab
      = Inr [(''s1'', [(''A'', ''0.1''), (''B'', ''0.2''), (''C'', ''0.3'')])]"
    by code_simp
  have q: "read_relab cba_relab
      = Inr [(''s1'', [(''C'', ''0.3''), (''B'', ''0.2''), (''A'', ''0.1'')])]"
    by code_simp
  have e: "same_entries [(''s1'', [(''A'', ''0.1''), (''B'', ''0.2''), (''C'', ''0.3'')])]
                [(''s1'', [(''C'', ''0.3''), (''B'', ''0.2''), (''A'', ''0.1'')])]"
    by code_simp
  have x: "main float64 ''gene'' abc_files abc_relab
     = Inr [(''s1'', [(''x'', 1351079888211149 / 2251799813685248)])]"
    by code_simp
  have y: "main float64 ''gene'' abc_files cba_relab
     = Inr [(''s1'', [(''x'', 5404319552844595 / 9007199254740992)])]"
    by code_simp
  have c: "cell [(''s1'', [(''x'', 1351079888211149 / 2251799813685248 :: rat)])] ''s1'' ''x''
     \<noteq> cell [(''s1'', [(''x'', 5404319552844595 / 9007199254740992 :: rat)])] ''s1'' ''x''"
    by (simp add: cell_def)
  from r p q e x y c show ?thesis by blast
qed

end
